theory Spec2Isabelle
  imports Complex_Main
begin

section \<open>Documents\<close>

text \<open>
  The accumulator and the deltas of \<^verbatim>\<open>merge_chunk\<close>, and the descriptor built by
  \<^verbatim>\<open>function_to_json\<close>, are JSON-shaped Python values: \<^verbatim>\<open>None\<close>, booleans, integers,
  floats, strings, lists and dictionaries with string keys. A dictionary keeps its items in
  insertion order, and the loop of \<^verbatim>\<open>merge_fields\<close> visits them in that order, so a
  dictionary is an association list; a Python dictionary never holds a key twice, which the
  theorems assume of a delta where it matters (\<open>distinct (map fst d)\<close>).
  The documents are trees: no object is reachable along two paths, and the delta shares
  no object with the accumulator, so the in-place mutation of a nested object is the
  replacement of that subtree.
  A float is carried but never computed with: the code only tests it for truth, and a
  real number stands for it.
  The accumulator is such a document, with plain dictionaries and lists. A mapping that
  makes up an entry when a missing key is read (\<^verbatim>\<open>collections.defaultdict\<close>) is not
  one, and is outside this model.
\<close>

datatype json =
    JNull
  | JBool bool
  | JInt int
  | JFloat real
  | JStr string
  | JList "json list"
  | JObj "(string \<times> json) list"

type_synonym dict = "(string \<times> json) list"

text \<open>The exceptions the code can raise.\<close>

datatype py_error = KeyError | IndexError | TypeError | AttributeError | ValueError

subsection \<open>Python's operations on these values\<close>

text \<open>\<^verbatim>\<open>d.get(k)\<close>, as an option.\<close>

definition dict_get :: "dict \<Rightarrow> string \<Rightarrow> json option" where
  "dict_get d k = map_of d k"

text \<open>\<^verbatim>\<open>d[k] = v\<close>: an existing key keeps its place, a new key goes last.\<close>

fun dict_set :: "dict \<Rightarrow> string \<Rightarrow> json \<Rightarrow> dict" where
  "dict_set [] k v = [(k, v)]"
| "dict_set ((k', v') # d) k v =
     (if k' = k then (k, v) # d else (k', v') # dict_set d k v)"

text \<open>\<^verbatim>\<open>d.pop(k, None)\<close>, the value dropped: the dictionary without the key.\<close>

definition dict_pop :: "string \<Rightarrow> dict \<Rightarrow> dict" where
  "dict_pop k d = filter (\<lambda>kv. fst kv \<noteq> k) d"

text \<open>Truth of a value (\<^verbatim>\<open>if tool_calls\<close>, \<^verbatim>\<open>if items\<close>).\<close>

fun truthy :: "json \<Rightarrow> bool" where
  "truthy JNull = False"
| "truthy (JBool b) = b"
| "truthy (JInt i) = (i \<noteq> 0)"
| "truthy (JFloat r) = (r \<noteq> 0)"
| "truthy (JStr s) = (s \<noteq> [])"
| "truthy (JList xs) = (xs \<noteq> [])"
| "truthy (JObj d) = (d \<noteq> [])"

text \<open>\<^verbatim>\<open>len(x)\<close>: a number, a boolean and \<^verbatim>\<open>None\<close> have no length.\<close>

fun py_len :: "json \<Rightarrow> py_error + nat" where
  "py_len (JStr s) = Inr (length s)"
| "py_len (JList xs) = Inr (length xs)"
| "py_len (JObj d) = Inr (length d)"
| "py_len _ = Inl TypeError"

text \<open>
  The position a sequence index addresses in a sequence of length \<open>n\<close>: a negative index
  counts from the end, and an index outside \<open>-n \<le> i < n\<close> addresses nothing.
\<close>

definition list_index :: "nat \<Rightarrow> int \<Rightarrow> nat option" where
  "list_index n i =
     (if 0 \<le> i \<and> i < int n then Some (nat i)
      else if - int n \<le> i \<and> i < 0 then Some (nat (int n + i))
      else None)"

text \<open>A value usable as a sequence index: an integer, or a boolean (an \<^verbatim>\<open>int\<close> in Python).\<close>

fun as_index :: "json \<Rightarrow> int option" where
  "as_index (JInt i) = Some i"
| "as_index (JBool b) = Some (if b then 1 else 0)"
| "as_index _ = None"

text \<open>Lists and dictionaries are not hashable.\<close>

fun hashable :: "json \<Rightarrow> bool" where
  "hashable (JList xs) = False"
| "hashable (JObj d) = False"
| "hashable _ = True"

text \<open>
  \<^verbatim>\<open>container[key]\<close>. A dictionary has string keys only, so another hashable key is
  missing (KeyError) and an unhashable one is a TypeError; a list and a string take an
  index; nothing else can be subscripted.
\<close>

fun getitem :: "json \<Rightarrow> json \<Rightarrow> py_error + json" where
  "getitem (JObj d) key =
     (case key of
        JStr k \<Rightarrow> (case dict_get d k of None \<Rightarrow> Inl KeyError | Some v \<Rightarrow> Inr v)
      | _ \<Rightarrow> if hashable key then Inl KeyError else Inl TypeError)"
| "getitem (JList xs) key =
     (case as_index key of
        None \<Rightarrow> Inl TypeError
      | Some i \<Rightarrow>
          (case list_index (length xs) i of
             None \<Rightarrow> Inl IndexError
           | Some p \<Rightarrow> Inr (xs ! p)))"
| "getitem (JStr s) key =
     (case as_index key of
        None \<Rightarrow> Inl TypeError
      | Some i \<Rightarrow>
          (case list_index (length s) i of
             None \<Rightarrow> Inl IndexError
           | Some p \<Rightarrow> Inr (JStr [s ! p])))"
| "getitem _ key = Inl TypeError"

text \<open>
  The container after the element read by \<open>getitem container key\<close> has been assigned or
  mutated in place: the model's write-back. It is used only after that read succeeded.
  The character read from a string is a temporary, so a string is left as it is.
\<close>

fun store_item :: "json \<Rightarrow> json \<Rightarrow> json \<Rightarrow> json" where
  "store_item (JObj d) key v = (case key of JStr k \<Rightarrow> JObj (dict_set d k v) | _ \<Rightarrow> JObj d)"
| "store_item (JList xs) key v =
     (case as_index key of
        None \<Rightarrow> JList xs
      | Some i \<Rightarrow>
          (case list_index (length xs) i of
             None \<Rightarrow> JList xs
           | Some p \<Rightarrow> JList (xs[p := v])))"
| "store_item c key v = c"

text \<open>
  \<^verbatim>\<open>old += value\<close> for a string \<^verbatim>\<open>value\<close>: a string is concatenated, a list is extended
  by the characters of the string, anything else is a TypeError.
\<close>

fun iadd :: "json \<Rightarrow> string \<Rightarrow> py_error + json" where
  "iadd (JStr a) s = Inr (JStr (a @ s))"
| "iadd (JList xs) s = Inr (JList (xs @ map (\<lambda>c. JStr [c]) s))"
| "iadd _ s = Inl TypeError"

text \<open>
  \<^verbatim>\<open>entry.pop("index")\<close>: the value and the entry without the key. A dictionary without
  the key raises KeyError, a list rejects the string argument, nothing else has \<^verbatim>\<open>pop\<close>.
\<close>

fun pop_index :: "json \<Rightarrow> py_error + (json \<times> json)" where
  "pop_index (JObj e) =
     (case dict_get e ''index'' of
        None \<Rightarrow> Inl KeyError
      | Some i \<Rightarrow> Inr (i, JObj (dict_pop ''index'' e)))"
| "pop_index (JList xs) = Inl TypeError"
| "pop_index _ = Inl AttributeError"

section \<open>Merging streamed deltas\<close>

text \<open>
  \<^verbatim>\<open>merge_fields(target, source)\<close> mutates \<^verbatim>\<open>target\<close> and returns nothing. The model
  returns the target after the call: \<open>Inr t\<close> when the call returns, \<open>Inl (e, t)\<close> when it
  raises \<open>e\<close>, where \<open>t\<close> is the target as the exception leaves it (the updates made
  before the failing field stay). The source is a dictionary at every call site, given by
  its items.
\<close>

fun merge_fields :: "json \<Rightarrow> dict \<Rightarrow> (py_error \<times> json) + json" where
  "merge_fields target [] = Inr target"
| "merge_fields target ((key, val) # rest) =
     (case val of
        JStr s \<Rightarrow>
          (case getitem target (JStr key) of
             Inl e \<Rightarrow> Inl (e, target)
           | Inr old \<Rightarrow>
               (case iadd old s of
                  Inl e \<Rightarrow> Inl (e, target)
                | Inr new \<Rightarrow> merge_fields (store_item target (JStr key) new) rest))
      | JObj src \<Rightarrow>
          (case getitem target (JStr key) of
             Inl e \<Rightarrow> Inl (e, target)
           | Inr sub \<Rightarrow>
               (case merge_fields sub src of
                  Inl (e, sub') \<Rightarrow> Inl (e, store_item target (JStr key) sub')
                | Inr sub' \<Rightarrow> merge_fields (store_item target (JStr key) sub') rest))
      | _ \<Rightarrow> merge_fields target rest)"

text \<open>
  \<^verbatim>\<open>merge_chunk(final_response, delta)\<close> mutates both of its arguments: it pops
  \<^verbatim>\<open>role\<close> from the delta and \<^verbatim>\<open>index\<close> from the delta's first tool call. The model
  returns both dictionaries after the call, \<open>Inr (final_response, delta)\<close> when the call
  returns and \<open>Inl (e, final_response, delta)\<close> when it raises \<open>e\<close>.
\<close>

definition merge_chunk :: "dict \<Rightarrow> dict \<Rightarrow> (py_error \<times> json \<times> dict) + (json \<times> dict)" where
  "merge_chunk final_response delta =
     (let delta1 = dict_pop ''role'' delta in
      case merge_fields (JObj final_response) delta1 of
        Inl (e, fr1) \<Rightarrow> Inl (e, fr1, delta1)
      | Inr fr1 \<Rightarrow>
          (let tool_calls = (case dict_get delta1 ''tool_calls'' of None \<Rightarrow> JNull | Some t \<Rightarrow> t) in
           if \<not> truthy tool_calls then Inr (fr1, delta1)
           else
             (case py_len tool_calls of
                Inl e \<Rightarrow> Inl (e, fr1, delta1)
              | Inr n \<Rightarrow>
                  if \<not> 0 < n then Inr (fr1, delta1)
                  else
                    (case getitem tool_calls (JInt 0) of
                       Inl e \<Rightarrow> Inl (e, fr1, delta1)
                     | Inr first \<Rightarrow>
                         (case pop_index first of
                            Inl e \<Rightarrow> Inl (e, fr1, delta1)
                          | Inr (index, first') \<Rightarrow>
                              (let delta2 =
                                     dict_set delta1 ''tool_calls''
                                       (store_item tool_calls (JInt 0) first')
                               in
                               case getitem fr1 (JStr ''tool_calls'') of
                                 Inl e \<Rightarrow> Inl (e, fr1, delta2)
                               | Inr calls \<Rightarrow>
                                   (case getitem calls index of
                                      Inl e \<Rightarrow> Inl (e, fr1, delta2)
                                    | Inr entry \<Rightarrow>
                                        (case merge_fields entry
                                                (case first' of JObj src \<Rightarrow> src | _ \<Rightarrow> []) of
                                           Inl (e, entry') \<Rightarrow>
                                             Inl (e,
                                                  store_item fr1 (JStr ''tool_calls'')
                                                    (store_item calls index entry'),
                                                  delta2)
                                         | Inr entry' \<Rightarrow>
                                             Inr (store_item fr1 (JStr ''tool_calls'')
                                                    (store_item calls index entry'),
                                                  delta2)))))))))"

section \<open>Building a tool descriptor\<close>

text \<open>
  An annotation as \<^verbatim>\<open>parse_type\<close> sees it, through \<^verbatim>\<open>get_origin\<close> and \<^verbatim>\<open>get_args\<close>:
  a plain object, whose origin is \<^verbatim>\<open>None\<close> (a class such as \<^verbatim>\<open>str\<close>, or any other
  object), or a generic alias with its origin and its arguments. \<^verbatim>\<open>Optional[T]\<close> is
  \<^verbatim>\<open>Union[T, None]\<close>, whose arguments are \<open>T\<close> and the class \<^verbatim>\<open>NoneType\<close>; both
  \<^verbatim>\<open>List[T]\<close> and \<^verbatim>\<open>list[T]\<close> have the origin \<^verbatim>\<open>list\<close>, and the bare
  \<^verbatim>\<open>typing.List\<close> has it with no argument.
  The lookup \<^verbatim>\<open>type_map.get(annotation, "string")\<close> hashes the annotation, and not every
  annotation can be hashed: a plain object that cannot is \<open>PyUnhashable\<close> (a list or a
  dictionary written as an annotation, \<^verbatim>\<open>x: [int]\<close>), and an alias of another origin
  carries, next to the origin's name, whether it can be hashed (\<^verbatim>\<open>Annotated[int, [1]]\<close>
  cannot, since it hashes its metadata; \<^verbatim>\<open>Callable[[int], str]\<close> can, though a list is
  among its arguments). The classes and the other plain objects, \<open>PyOther\<close>, can be hashed.
\<close>

datatype pyclass =
    PyStr | PyInt | PyFloat | PyBool | PyList | PyDict | PyNoneType
  | PyOther string
  | PyUnhashable string

datatype origin = OUnion | OList | ODict | OOther string bool

datatype annotation =
    Plain pyclass
  | Generic origin "annotation list"

text \<open>The table \<^verbatim>\<open>type_map\<close>, and \<^verbatim>\<open>type_map.get(annotation, default)\<close>.\<close>

definition type_map :: "(annotation \<times> string) list" where
  "type_map =
     [(Plain PyStr, ''string''),
      (Plain PyInt, ''integer''),
      (Plain PyFloat, ''number''),
      (Plain PyBool, ''boolean''),
      (Plain PyList, ''array''),
      (Plain PyDict, ''object''),
      (Plain PyNoneType, ''null'')]"

definition type_map_get :: "annotation \<Rightarrow> string \<Rightarrow> string" where
  "type_map_get a d = (case map_of type_map a of None \<Rightarrow> d | Some s \<Rightarrow> s)"

text \<open>Whether \<^verbatim>\<open>hash(annotation)\<close> returns; it raises TypeError when it does not.\<close>

fun hashable_annotation :: "annotation \<Rightarrow> bool" where
  "hashable_annotation (Plain (PyUnhashable n)) = False"
| "hashable_annotation (Generic (OOther n h) args) = h"
| "hashable_annotation _ = True"

text \<open>
  \<^verbatim>\<open>parse_type(annotation)\<close>. \<^verbatim>\<open>list(set(types))\<close> lists the distinct elements of
  \<^verbatim>\<open>types\<close> in an order Python leaves open (it follows the strings' hashes): the order
  is the parameter \<open>set_list\<close>, of which the theorems assume only that it keeps the
  elements and repeats none. \<^verbatim>\<open>set(types)\<close> raises TypeError on an unhashable element,
  and so does the lookup in \<^verbatim>\<open>type_map\<close> on an annotation that cannot be hashed.
  The loop over the members of a union is \<open>union_loop\<close>, with the loop's variables
  \<^verbatim>\<open>types\<close> and \<^verbatim>\<open>items\<close> as arguments.
\<close>

function (sequential)
  parse_type :: "(json list \<Rightarrow> json list) \<Rightarrow> annotation \<Rightarrow> py_error + json" and
  union_loop :: "(json list \<Rightarrow> json list) \<Rightarrow> annotation list \<Rightarrow> json list \<Rightarrow> json
                   \<Rightarrow> py_error + (json list \<times> json)"
where
  "parse_type set_list (Generic OUnion args) =
     (case (if Plain PyNoneType \<in> set args then
              (case filter (\<lambda>arg. arg \<noteq> Plain PyNoneType) args of
                 [t] \<Rightarrow>
                   (case parse_type set_list t of
                      Inl e \<Rightarrow> Some (Inl e)
                    | Inr parsed \<Rightarrow>
                        (case parsed of
                           JObj p \<Rightarrow>
                             if dict_get p ''type'' \<noteq> None
                             then Some (Inr (JObj (dict_set p ''nullable'' (JBool True))))
                             else None
                         | _ \<Rightarrow> None))
               | _ \<Rightarrow> None)
            else None) of
        Some r \<Rightarrow> r
      | None \<Rightarrow>
          (case union_loop set_list args [] JNull of
             Inl e \<Rightarrow> Inl e
           | Inr (types, items) \<Rightarrow>
               if \<not> list_all hashable types then Inl TypeError
               else
                 Inr (JObj ((''type'', JList (set_list types)) #
                            (if truthy items then [(''items'', items)] else [])))))"
| "parse_type set_list (Generic OList args) =
     (case args of
        [] \<Rightarrow> Inr (JObj [(''type'', JStr ''array''), (''items'', JObj [(''type'', JStr ''string'')])])
      | a # _ \<Rightarrow>
          (case parse_type set_list a of
             Inl e \<Rightarrow> Inl e
           | Inr parsed_items \<Rightarrow>
               Inr (JObj [(''type'', JStr ''array''),
                          (''items'',
                           JObj [(''type'',
                                  (case parsed_items of
                                     JObj p \<Rightarrow>
                                       (case dict_get p ''type'' of
                                          None \<Rightarrow> JStr ''string''
                                        | Some t \<Rightarrow> t)
                                   | _ \<Rightarrow> JStr ''string''))])])))"
| "parse_type set_list (Generic ODict args) =
     (case args of
        [key_type, value_type] \<Rightarrow>
          (case parse_type set_list value_type of
             Inl e \<Rightarrow> Inl e
           | Inr parsed_value \<Rightarrow>
               Inr (JObj [(''type'', JStr ''object''),
                          (''additionalProperties'',
                           (case parsed_value of
                              JObj p \<Rightarrow> JObj p
                            | _ \<Rightarrow> JObj [(''type'', JStr ''string'')]))]))
      | _ \<Rightarrow>
          Inr (JObj [(''type'', JStr ''object''),
                     (''additionalProperties'', JObj [(''type'', JStr ''string'')])]))"
| "parse_type set_list annotation =
     (if hashable_annotation annotation
      then Inr (JObj [(''type'', JStr (type_map_get annotation ''string''))])
      else Inl TypeError)"
| "union_loop set_list [] types items = Inr (types, items)"
| "union_loop set_list (arg # args) types items =
     (case parse_type set_list arg of
        Inl e \<Rightarrow> Inl e
      | Inr parsed \<Rightarrow>
          (case parsed of
             JObj p \<Rightarrow>
               union_loop set_list args
                 (types @ [case dict_get p ''type'' of None \<Rightarrow> JStr ''string'' | Some t \<Rightarrow> t])
                 (if dict_get p ''type'' = Some (JStr ''array'')
                  then (case dict_get p ''items'' of None \<Rightarrow> items | Some it \<Rightarrow> it)
                  else items)
           | _ \<Rightarrow> union_loop set_list args (types @ [JStr ''string'']) items))"
  by pat_completeness auto

text \<open>
  Both functions terminate: a call of \<open>parse_type\<close> is on an argument of the annotation,
  and the loop goes down the list of arguments.
\<close>

lemma size_member: "t \<in> set xs \<Longrightarrow> size (t::annotation) < Suc (size_list size xs)"
  by (induction xs) auto

lemma size_filter_single:
  assumes "filter P xs = [t]"
  shows "size (t::annotation) < Suc (size_list size xs)"
proof -
  from assms have "t \<in> set (filter P xs)" by simp
  then have "t \<in> set xs" by simp
  then show ?thesis by (rule size_member)
qed

termination parse_type
  apply (relation "measure (\<lambda>x. case x of
                       Inl (sl, a) \<Rightarrow> size a
                     | Inr (sl, args, types, items) \<Rightarrow> size_list size args)")
  apply (auto dest: size_filter_single)
  done

declare parse_type.simps [simp del] union_loop.simps [simp del]

text \<open>
  \<^verbatim>\<open>function_to_json\<close> finds out whether a parameter has an annotation, or a default, by
  comparing what the parameter holds with the sentinel: \<^verbatim>\<open>x == inspect.Parameter.empty\<close>.
  What a parameter holds in such a place is the sentinel itself (\<open>Absent\<close>: nothing was
  declared), or a declared object, and then \<^verbatim>\<open>==\<close> is answered by that object: False by
  the objects with the usual equality (\<open>Given\<close>: numbers, strings, \<^verbatim>\<open>None\<close>, lists,
  classes, the aliases of \<^verbatim>\<open>typing\<close>), True by an object that is equal to everything
  (\<open>GivenEqAll\<close>: \<^verbatim>\<open>unittest.mock.ANY\<close>), and with an exception by an object whose
  comparison raises or has no truth value (\<open>GivenEqRaises\<close>: an array of several elements
  raises ValueError in the test).
\<close>

datatype 'a slot =
    Absent
  | Given 'a
  | GivenEqAll
  | GivenEqRaises py_error

fun eq_empty :: "'a slot \<Rightarrow> py_error + bool" where
  "eq_empty Absent = Inr True"
| "eq_empty (Given x) = Inr False"
| "eq_empty GivenEqAll = Inr True"
| "eq_empty (GivenEqRaises e) = Inl e"

text \<open>
  What \<^verbatim>\<open>function_to_json\<close> reads of a function: its \<^verbatim>\<open>__name__\<close> (\<open>None\<close> when the
  object has no such attribute, as a \<^verbatim>\<open>functools.partial\<close> and an instance with
  \<^verbatim>\<open>__call__\<close>: reading it raises AttributeError), its \<^verbatim>\<open>__doc__\<close> (\<open>None\<close> when it
  has none) and the parameters of \<^verbatim>\<open>inspect.signature(func)\<close> in declaration order
  (\<open>None\<close> when \<^verbatim>\<open>inspect.signature\<close> raises ValueError). A parameter has a name, and
  holds an annotation and a default. The value of an ordinary default is never read.
\<close>

record param =
  pname :: string
  pannotation :: "annotation slot"
  pdefault :: "json slot"

record pyfunc =
  fname :: "string option"
  fdoc :: "string option"
  fsignature :: "param list option"

text \<open>
  The value of the variable \<^verbatim>\<open>param_type\<close> for one parameter: the default fragment when
  \<^verbatim>\<open>param.annotation == inspect.Parameter.empty\<close> answers True, the parsed annotation when
  it answers False.
\<close>

definition param_type :: "(json list \<Rightarrow> json list) \<Rightarrow> param \<Rightarrow> py_error + json" where
  "param_type set_list p =
     (case pannotation p of
        Absent \<Rightarrow> Inr (JObj [(''type'', JStr ''string'')])
      | Given a \<Rightarrow> parse_type set_list a
      | GivenEqAll \<Rightarrow> Inr (JObj [(''type'', JStr ''string'')])
      | GivenEqRaises e \<Rightarrow> Inl e)"

text \<open>The loop that fills the dictionary \<^verbatim>\<open>parameters\<close>.\<close>

fun build_parameters ::
  "(json list \<Rightarrow> json list) \<Rightarrow> param list \<Rightarrow> dict \<Rightarrow> py_error + dict" where
  "build_parameters set_list [] parameters = Inr parameters"
| "build_parameters set_list (p # ps) parameters =
     (case param_type set_list p of
        Inl e \<Rightarrow> Inl e
      | Inr fragment \<Rightarrow>
          build_parameters set_list ps (dict_set parameters (pname p) fragment))"

text \<open>
  The comprehension that builds \<^verbatim>\<open>required\<close>: the names of the parameters for which
  \<^verbatim>\<open>param.default == inspect.Parameter.empty\<close> answers True, in declaration order; the
  first comparison that raises ends it.
\<close>

fun required_names :: "param list \<Rightarrow> py_error + string list" where
  "required_names [] = Inr []"
| "required_names (p # ps) =
     (case eq_empty (pdefault p) of
        Inl e \<Rightarrow> Inl e
      | Inr is_empty \<Rightarrow>
          (case required_names ps of
             Inl e \<Rightarrow> Inl e
           | Inr names \<Rightarrow> Inr (if is_empty then pname p # names else names)))"

text \<open>
  \<^verbatim>\<open>function_to_json(func)\<close>. The handler of the ValueError of \<^verbatim>\<open>inspect.signature\<close>
  reads \<^verbatim>\<open>func.__name__\<close> for its message, and the returned dictionary reads it after
  \<^verbatim>\<open>parameters\<close> and \<^verbatim>\<open>required\<close> are built.
\<close>

definition function_to_json :: "(json list \<Rightarrow> json list) \<Rightarrow> pyfunc \<Rightarrow> py_error + json" where
  "function_to_json set_list func =
     (case fsignature func of
        None \<Rightarrow> (case fname func of None \<Rightarrow> Inl AttributeError | Some name \<Rightarrow> Inl ValueError)
      | Some params \<Rightarrow>
          (case build_parameters set_list params [] of
             Inl e \<Rightarrow> Inl e
           | Inr parameters \<Rightarrow>
               (case required_names params of
                  Inl e \<Rightarrow> Inl e
                | Inr required \<Rightarrow>
                    (case fname func of
                       None \<Rightarrow> Inl AttributeError
                     | Some name \<Rightarrow>
                         Inr (JObj
                           [(''type'', JStr ''function''),
                            (''function'',
                             JObj [(''name'', JStr name),
                                   (''description'',
                                    JStr (case fdoc func of None \<Rightarrow> [] | Some d \<Rightarrow> d)),
                                   (''parameters'',
                                    JObj [(''type'', JStr ''object''),
                                          (''properties'', JObj parameters),
                                          (''required'', JList (map JStr required))])])])))))"

text \<open>
  The function of the specification's end-to-end example,
  \<^verbatim>\<open>def add(a: int, b: int = 0) -> int: "Add two numbers"\<close>.
\<close>

definition add_example :: pyfunc where
  "add_example =
     \<lparr>fname = Some ''add'', fdoc = Some ''Add two numbers'',
      fsignature = Some [\<lparr>pname = ''a'', pannotation = Given (Plain PyInt), pdefault = Absent\<rparr>,
                         \<lparr>pname = ''b'', pannotation = Given (Plain PyInt),
                          pdefault = Given (JInt 0)\<rparr>]\<rparr>"

section \<open>Reading an outcome\<close>

text \<open>The target that a call of \<open>merge_fields\<close> leaves, whether it returned or raised.\<close>

definition target_after :: "(py_error \<times> json) + json \<Rightarrow> json" where
  "target_after r = (case r of Inl (e, t) \<Rightarrow> t | Inr t \<Rightarrow> t)"

text \<open>The delta that a call of \<open>merge_chunk\<close> leaves, whether it returned or raised.\<close>

definition delta_after :: "(py_error \<times> json \<times> dict) + (json \<times> dict) \<Rightarrow> dict" where
  "delta_after r = (case r of Inl (e, fr, d) \<Rightarrow> d | Inr (fr, d) \<Rightarrow> d)"

text \<open>A value that \<open>merge_fields\<close> merges when it is the value of a source field.\<close>

fun merged_kind :: "json \<Rightarrow> bool" where
  "merged_kind (JStr s) = True"
| "merged_kind (JObj d) = True"
| "merged_kind _ = False"

section \<open>Keeping the keys of a document\<close>

text \<open>
  \<open>keys_kept old new\<close>: the document \<open>new\<close> has an object exactly where \<open>old\<close> has one,
  with the same keys in the same order, and a list exactly where \<open>old\<close> has one, with the
  entries of \<open>old\<close> in place (each keeping its keys) and, after them, scalars only. So no
  object of \<open>new\<close> has a key that the object of \<open>old\<close> at the same place lacks, and
  \<open>new\<close> has no object that \<open>old\<close> lacks.
\<close>

fun scalar :: "json \<Rightarrow> bool" where
  "scalar (JList xs) = False"
| "scalar (JObj d) = False"
| "scalar _ = True"

fun keys_kept :: "json \<Rightarrow> json \<Rightarrow> bool"
  and keys_kept_items :: "dict \<Rightarrow> dict \<Rightarrow> bool"
  and keys_kept_list :: "json list \<Rightarrow> json list \<Rightarrow> bool" where
  "keys_kept (JObj d) new = (case new of JObj d' \<Rightarrow> keys_kept_items d d' | _ \<Rightarrow> False)"
| "keys_kept (JList xs) new = (case new of JList ys \<Rightarrow> keys_kept_list xs ys | _ \<Rightarrow> False)"
| "keys_kept old new = scalar new"
| "keys_kept_items [] d' = (d' = [])"
| "keys_kept_items ((k, v) # d) d' =
     (case d' of [] \<Rightarrow> False | (k', v') # r \<Rightarrow> k' = k \<and> keys_kept v v' \<and> keys_kept_items d r)"
| "keys_kept_list [] ys = list_all scalar ys"
| "keys_kept_list (x # xs) ys =
     (case ys of [] \<Rightarrow> False | y # r \<Rightarrow> keys_kept x y \<and> keys_kept_list xs r)"

section \<open>Annotations that parse\<close>

text \<open>
  \<^verbatim>\<open>typing.Union\<close> flattens its arguments: no argument of a union is itself a union
  (\<^verbatim>\<open>Union[Union[int, str], float]\<close> is \<^verbatim>\<open>Union[int, str, float]\<close>). \<open>parses\<close> says of
  an annotation that its unions are flat and that what can reach the lookup in
  \<^verbatim>\<open>type_map\<close> can be hashed.
\<close>

fun is_union :: "annotation \<Rightarrow> bool" where
  "is_union (Generic OUnion args) = True"
| "is_union _ = False"

fun parses :: "annotation \<Rightarrow> bool" where
  "parses (Plain c) = hashable_annotation (Plain c)"
| "parses (Generic (OOther n h) args) = h"
| "parses (Generic OUnion args) = (list_all parses args \<and> list_all (\<lambda>a. \<not> is_union a) args)"
| "parses (Generic g args) = list_all parses args"

section \<open>Properties of the descriptor\<close>

subsection \<open>Dictionaries\<close>

lemma dict_get_dict_set:
  "dict_get (dict_set d k v) k' = (if k' = k then Some v else dict_get d k')"
  by (induction d) (auto simp: dict_get_def)

lemma keys_dict_set:
  "map fst (dict_set d k v) = (if k \<in> set (map fst d) then map fst d else map fst d @ [k])"
  by (induction d) (force+)

subsection \<open>The primitive table\<close>

text \<open>
  The lookup in the table: the seven classes map to their names, and every other
  annotation that reaches the lookup maps to "string" when it can be hashed, and raises
  TypeError when it cannot.
\<close>

lemma parse_type_lookup:
  "parse_type sl (Plain PyStr) = Inr (JObj [(''type'', JStr ''string'')])"
  "parse_type sl (Plain PyInt) = Inr (JObj [(''type'', JStr ''integer'')])"
  "parse_type sl (Plain PyFloat) = Inr (JObj [(''type'', JStr ''number'')])"
  "parse_type sl (Plain PyBool) = Inr (JObj [(''type'', JStr ''boolean'')])"
  "parse_type sl (Plain PyList) = Inr (JObj [(''type'', JStr ''array'')])"
  "parse_type sl (Plain PyDict) = Inr (JObj [(''type'', JStr ''object'')])"
  "parse_type sl (Plain PyNoneType) = Inr (JObj [(''type'', JStr ''null'')])"
  "parse_type sl (Plain (PyOther c)) = Inr (JObj [(''type'', JStr ''string'')])"
  "parse_type sl (Generic (OOther g True) args) = Inr (JObj [(''type'', JStr ''string'')])"
  "parse_type sl (Plain (PyUnhashable c)) = Inl TypeError"
  "parse_type sl (Generic (OOther g False) args) = Inl TypeError"
  by (simp_all add: parse_type.simps type_map_get_def type_map_def)

subsection \<open>Optional\<close>

text \<open>
  C8. For a union that has \<^verbatim>\<open>NoneType\<close> among its members and exactly one other
  member \<open>T\<close>, where parsing \<open>T\<close> gives an object fragment \<open>p\<close> with a \<open>type\<close> key:
  \<open>parse_type\<close> returns \<open>p\<close> with \<open>nullable\<close> set to true, every other key of \<open>p\<close> as it was.
\<close>

theorem optional_adds_nullable:
  assumes "Plain PyNoneType \<in> set args"
    and "filter (\<lambda>a. a \<noteq> Plain PyNoneType) args = [T]"
    and "parse_type sl T = Inr (JObj p)"
    and "dict_get p ''type'' \<noteq> None"
  shows "parse_type sl (Generic OUnion args) = Inr (JObj (dict_set p ''nullable'' (JBool True)))
         \<and> dict_get (dict_set p ''nullable'' (JBool True)) ''nullable'' = Some (JBool True)
         \<and> (\<forall>k. k \<noteq> ''nullable'' \<longrightarrow>
                dict_get (dict_set p ''nullable'' (JBool True)) k = dict_get p k)"
  using assms by (simp add: parse_type.simps dict_get_dict_set)

theorem optional_adds_nullable_witness:
  "Plain PyNoneType \<in> set [Generic OList [Plain PyInt], Plain PyNoneType]
   \<and> filter (\<lambda>a. a \<noteq> Plain PyNoneType) [Generic OList [Plain PyInt], Plain PyNoneType]
       = [Generic OList [Plain PyInt]]
   \<and> parse_type remdups (Generic OList [Plain PyInt])
       = Inr (JObj [(''type'', JStr ''array''), (''items'', JObj [(''type'', JStr ''integer'')])])
   \<and> parse_type remdups (Generic OUnion [Generic OList [Plain PyInt], Plain PyNoneType])
       = Inr (JObj [(''type'', JStr ''array''), (''items'', JObj [(''type'', JStr ''integer'')]),
                    (''nullable'', JBool True)])"
proof -
  have h1: "Plain PyNoneType \<in> set [Generic OList [Plain PyInt], Plain PyNoneType]"
    by simp
  have h2: "filter (\<lambda>a. a \<noteq> Plain PyNoneType) [Generic OList [Plain PyInt], Plain PyNoneType]
              = [Generic OList [Plain PyInt]]"
    by simp
  have h3: "parse_type remdups (Generic OList [Plain PyInt])
              = Inr (JObj [(''type'', JStr ''array''), (''items'', JObj [(''type'', JStr ''integer'')])])"
    by (simp add: parse_type.simps type_map_get_def type_map_def dict_get_def)
  have h4: "dict_get [(''type'', JStr ''array''), (''items'', JObj [(''type'', JStr ''integer'')])]
              ''type'' \<noteq> None"
    by (simp add: dict_get_def)
  from optional_adds_nullable [OF h1 h2 h3 h4]
  have "parse_type remdups (Generic OUnion [Generic OList [Plain PyInt], Plain PyNoneType])
          = Inr (JObj (dict_set [(''type'', JStr ''array''),
                                 (''items'', JObj [(''type'', JStr ''integer'')])]
                         ''nullable'' (JBool True)))"
    by (rule conjunct1)
  then show ?thesis using h1 h2 h3 by simp
qed

subsection \<open>Unions\<close>

text \<open>An array fragment that \<open>parse_type\<close> returns with an \<open>items\<close> key has a non-empty object there.\<close>

lemma parse_type_array_items:
  "parse_type sl a = Inr (JObj p) \<Longrightarrow> dict_get p ''type'' = Some (JStr ''array'') \<Longrightarrow>
   dict_get p ''items'' = Some it \<Longrightarrow> truthy it"
proof (induction a arbitrary: p)
  case (Plain c)
  then show ?case by (auto simp: parse_type.simps dict_get_def split: if_splits)
next
  case (Generic g args)
  show ?case
  proof (cases g)
    case OUnion
    show ?thesis
    proof (cases "Plain PyNoneType \<in> set args
                  \<and> (\<exists>t. filter (\<lambda>arg. arg \<noteq> Plain PyNoneType) args = [t])")
      case True
      then obtain t where t: "filter (\<lambda>arg. arg \<noteq> Plain PyNoneType) args = [t]" by blast
      then have "t \<in> set (filter (\<lambda>arg. arg \<noteq> Plain PyNoneType) args)" by simp
      then have mem: "t \<in> set args" by simp
      show ?thesis
      proof (cases "parse_type sl t")
        case (Inl e)
        with Generic.prems(1) OUnion True t show ?thesis by (simp add: parse_type.simps)
      next
        case (Inr parsed)
        show ?thesis
        proof (cases "\<exists>q. parsed = JObj q \<and> dict_get q ''type'' \<noteq> None")
          case True
          then obtain q where q: "parsed = JObj q" "dict_get q ''type'' \<noteq> None" by blast
          with Generic.prems(1) OUnion \<open>Plain PyNoneType \<in> set args \<and> _\<close> t Inr
          have "p = dict_set q ''nullable'' (JBool True)" by (simp add: parse_type.simps)
          with Generic.prems(2,3) have "dict_get q ''type'' = Some (JStr ''array'')"
            "dict_get q ''items'' = Some it" by (simp_all add: dict_get_dict_set)
          from Generic.IH[OF mem Inr[unfolded q(1)] this] show ?thesis .
        next
          case False
          with Generic.prems OUnion \<open>Plain PyNoneType \<in> set args \<and> _\<close> t Inr show ?thesis
            by (cases parsed)
              (auto simp: parse_type.simps dict_get_def split: sum.splits prod.splits if_splits)
        qed
      qed
    next
      case False
      then have "(if Plain PyNoneType \<in> set args then
              (case filter (\<lambda>arg. arg \<noteq> Plain PyNoneType) args of
                 [t] \<Rightarrow>
                   (case parse_type sl t of
                      Inl e \<Rightarrow> Some (Inl e)
                    | Inr parsed \<Rightarrow>
                        (case parsed of
                           JObj p \<Rightarrow>
                             if dict_get p ''type'' \<noteq> None
                             then Some (Inr (JObj (dict_set p ''nullable'' (JBool True))))
                             else None
                         | _ \<Rightarrow> None))
               | _ \<Rightarrow> None)
            else None) = None"
        by (auto split: list.splits)
      with Generic.prems OUnion show ?thesis
        by (auto simp: parse_type.simps dict_get_def split: sum.splits prod.splits if_splits)
    qed
  next
    case OList
    with Generic.prems show ?thesis
      by (auto simp: parse_type.simps dict_get_def split: list.splits sum.splits)
  next
    case ODict
    with Generic.prems show ?thesis
      by (auto simp: parse_type.simps dict_get_def split: list.splits sum.splits)
  next
    case (OOther n h)
    with Generic.prems show ?thesis
      by (auto simp: parse_type.simps dict_get_def split: if_splits)
  qed
qed

text \<open>The loop over the members of a union, when every member parses to an object fragment.\<close>

lemma union_loop_result:
  "map (parse_type sl) args = map (\<lambda>p. Inr (JObj p)) ps \<Longrightarrow>
   union_loop sl args types items =
     Inr (types @ map (\<lambda>p. case dict_get p ''type'' of None \<Rightarrow> JStr ''string'' | Some t \<Rightarrow> t) ps,
          fold (\<lambda>p items. if dict_get p ''type'' = Some (JStr ''array'')
                           then (case dict_get p ''items'' of None \<Rightarrow> items | Some it \<Rightarrow> it)
                           else items) ps items)"
proof (induction args arbitrary: ps types items)
  case Nil
  then show ?case by (simp add: union_loop.simps)
next
  case (Cons a args)
  from Cons.prems obtain p ps' where ps: "ps = p # ps'" "parse_type sl a = Inr (JObj p)"
    "map (parse_type sl) args = map (\<lambda>p. Inr (JObj p)) ps'"
    by (cases ps) auto
  from Cons.IH[OF ps(3)] ps(1,2) show ?case by (simp add: union_loop.simps)
qed

text \<open>The value the loop leaves in \<^verbatim>\<open>items\<close> is that of the last array member with items.\<close>

lemma fold_items_last:
  "fold (\<lambda>p items. if dict_get p ''type'' = Some (JStr ''array'')
                           then (case dict_get p ''items'' of None \<Rightarrow> items | Some it \<Rightarrow> it)
                           else items) ps items0
   = (case rev (filter (\<lambda>p. dict_get p ''type'' = Some (JStr ''array'')
                              \<and> dict_get p ''items'' \<noteq> None) ps) of
        [] \<Rightarrow> items0
      | p # _ \<Rightarrow> (case dict_get p ''items'' of None \<Rightarrow> items0 | Some it \<Rightarrow> it))"
  by (induction ps rule: rev_induct) (auto split: option.splits list.splits)

text \<open>
  C4, as the code has it. Take a union with more than one member other than \<^verbatim>\<open>NoneType\<close>,
  whose members parse to object fragments with the type names \<open>names\<close> (strings), and let
  \<^verbatim>\<open>list(set(...))\<close> keep the elements and repeat none. Then \<open>parse_type\<close> returns the
  fragment whose \<open>type\<close> is \<^verbatim>\<open>list(set(names))\<close>, the distinct type names of the members;
  and when some member parses to an array fragment with an \<open>items\<close> key, the fragment has
  the \<open>items\<close> of the last such member (each one found overwrites the one before), and
  otherwise no \<open>items\<close> key.
\<close>

theorem union_types_and_last_items:
  assumes order: "\<forall>xs. set (sl xs) = set xs \<and> distinct (sl xs)"
    and many: "1 < length (filter (\<lambda>a. a \<noteq> Plain PyNoneType) args)"
    and parsed: "map (parse_type sl) args = map (\<lambda>p. Inr (JObj p)) ps"
    and names: "map (\<lambda>p. dict_get p ''type'') ps = map (\<lambda>s. Some (JStr s)) names"
  shows "parse_type sl (Generic OUnion args) =
           Inr (JObj ((''type'', JList (sl (map JStr names))) #
                      (case rev (filter (\<lambda>p. dict_get p ''type'' = Some (JStr ''array'')
                                               \<and> dict_get p ''items'' \<noteq> None) ps) of
                         [] \<Rightarrow> []
                       | p # _ \<Rightarrow> (case dict_get p ''items'' of
                                     None \<Rightarrow> []
                                   | Some it \<Rightarrow> [(''items'', it)]))))
         \<and> set (sl (map JStr names)) = JStr ` set names
         \<and> distinct (sl (map JStr names))"
proof -
  let ?arr = "\<lambda>p. dict_get p ''type'' = Some (JStr ''array'') \<and> dict_get p ''items'' \<noteq> None"
  let ?step = "\<lambda>p items. if dict_get p ''type'' = Some (JStr ''array'')
                           then (case dict_get p ''items'' of None \<Rightarrow> items | Some it \<Rightarrow> it)
                           else items"
  have two: "\<exists>x y zs. xs = x # y # zs" if "1 < length xs" for xs :: "annotation list"
  proof (cases xs)
    case Nil
    with that show ?thesis by simp
  next
    case (Cons x ys)
    with that show ?thesis by (cases ys) simp_all
  qed
  from two[OF many] obtain x y zs where
    "filter (\<lambda>a. a \<noteq> Plain PyNoneType) args = x # y # zs" by blast
  then have opt: "(if Plain PyNoneType \<in> set args then
              (case filter (\<lambda>arg. arg \<noteq> Plain PyNoneType) args of
                 [t] \<Rightarrow>
                   (case parse_type sl t of
                      Inl e \<Rightarrow> Some (Inl e)
                    | Inr parsed \<Rightarrow>
                        (case parsed of
                           JObj p \<Rightarrow>
                             if dict_get p ''type'' \<noteq> None
                             then Some (Inr (JObj (dict_set p ''nullable'' (JBool True))))
                             else None
                         | _ \<Rightarrow> None))
               | _ \<Rightarrow> None)
            else None) = None"
    by simp
  have tn: "map (\<lambda>p. case dict_get p ''type'' of None \<Rightarrow> JStr ''string'' | Some t \<Rightarrow> t) ps
              = map JStr names"
  proof -
    have "map (\<lambda>p. case dict_get p ''type'' of None \<Rightarrow> JStr ''string'' | Some t \<Rightarrow> t) ps
            = map (\<lambda>t. case t of None \<Rightarrow> JStr ''string'' | Some t \<Rightarrow> t) (map (\<lambda>p. dict_get p ''type'') ps)"
      by (simp add: comp_def)
    also have "\<dots> = map JStr names" by (simp add: names comp_def)
    finally show ?thesis .
  qed
  have loop: "union_loop sl args [] JNull = Inr (map JStr names, fold ?step ps JNull)"
    using union_loop_result[OF parsed, of "[]" JNull] tn by simp
  have hash: "list_all hashable (map JStr names)" by (simp add: list_all_iff)
  have items: "(if truthy (fold ?step ps JNull) then [(''items'', fold ?step ps JNull)] else [])
                 = (case rev (filter ?arr ps) of
                         [] \<Rightarrow> []
                       | p # _ \<Rightarrow> (case dict_get p ''items'' of
                                     None \<Rightarrow> []
                                   | Some it \<Rightarrow> [(''items'', it)]))"
  proof (cases "rev (filter ?arr ps)")
    case Nil
    then show ?thesis by (simp add: fold_items_last)
  next
    case (Cons p rest)
    then have "p \<in> set (rev (filter ?arr ps))" by simp
    then have "p \<in> set (filter ?arr ps)" by (simp only: set_rev)
    then have pin: "p \<in> set ps" and arr: "dict_get p ''type'' = Some (JStr ''array'')"
      and "dict_get p ''items'' \<noteq> None" by auto
    then obtain it where it: "dict_get p ''items'' = Some it" by auto
    from pin have "Inr (JObj p) \<in> set (map (parse_type sl) args)" by (simp add: parsed)
    then obtain a where "parse_type sl a = Inr (JObj p)" by auto
    from parse_type_array_items[OF this arr it] have "truthy it" .
    with Cons it show ?thesis by (simp add: fold_items_last)
  qed
  have "parse_type sl (Generic OUnion args) =
           Inr (JObj ((''type'', JList (sl (map JStr names))) #
                      (if truthy (fold ?step ps JNull) then [(''items'', fold ?step ps JNull)] else [])))"
    by (subst parse_type.simps(1), subst opt) (simp add: loop hash)
  with items order show ?thesis by simp
qed

theorem union_types_and_last_items_witness:
  "(\<forall>xs :: json list. set (remdups xs) = set xs \<and> distinct (remdups xs))
   \<and> 1 < length (filter (\<lambda>a. a \<noteq> Plain PyNoneType)
         [Plain PyInt, Generic OList [Plain PyInt], Plain PyList, Generic OList [Plain PyStr]])
   \<and> map (parse_type remdups)
         [Plain PyInt, Generic OList [Plain PyInt], Plain PyList, Generic OList [Plain PyStr]]
       = map (\<lambda>p. Inr (JObj p))
         [[(''type'', JStr ''integer'')],
          [(''type'', JStr ''array''), (''items'', JObj [(''type'', JStr ''integer'')])],
          [(''type'', JStr ''array'')],
          [(''type'', JStr ''array''), (''items'', JObj [(''type'', JStr ''string'')])]]
   \<and> map (\<lambda>p. dict_get p ''type'')
         [[(''type'', JStr ''integer'')],
          [(''type'', JStr ''array''), (''items'', JObj [(''type'', JStr ''integer'')])],
          [(''type'', JStr ''array'')],
          [(''type'', JStr ''array''), (''items'', JObj [(''type'', JStr ''string'')])]]
       = map (\<lambda>s. Some (JStr s)) [''integer'', ''array'', ''array'', ''array'']
   \<and> parse_type remdups (Generic OUnion
         [Plain PyInt, Generic OList [Plain PyInt], Plain PyList, Generic OList [Plain PyStr]])
       = Inr (JObj [(''type'', JList [JStr ''integer'', JStr ''array'']),
                    (''items'', JObj [(''type'', JStr ''string'')])])"
  (is "?h1 \<and> ?h2 \<and> ?h3 \<and> ?h4 \<and> ?c")
proof -
  have h1: ?h1 by simp
  have h2: ?h2 by simp
  have h3: ?h3 by (simp add: parse_type.simps type_map_get_def type_map_def dict_get_def)
  have h4: ?h4 by (simp add: dict_get_def)
  from conjunct1 [OF union_types_and_last_items [OF h1 h2 h3 h4]]
  have c: ?c by (simp add: dict_get_def)
  show ?thesis by (intro conjI h1 h2 h3 h4 c)
qed

text \<open>
  Against C4 as stated: for \<^verbatim>\<open>Union[List[int], List[str]]\<close> the union fragment has the
  \<open>items\<close> of the second member, \<open>{type: "string"}\<close>, not those of the first,
  \<open>{type: "integer"}\<close>.
\<close>

theorem union_first_items_counterexample:
  "parse_type remdups (Generic OList [Plain PyInt])
     = Inr (JObj [(''type'', JStr ''array''), (''items'', JObj [(''type'', JStr ''integer'')])])
   \<and> parse_type remdups (Generic OList [Plain PyStr])
     = Inr (JObj [(''type'', JStr ''array''), (''items'', JObj [(''type'', JStr ''string'')])])
   \<and> parse_type remdups (Generic OUnion [Generic OList [Plain PyInt], Generic OList [Plain PyStr]])
     = Inr (JObj [(''type'', JList [JStr ''array'']), (''items'', JObj [(''type'', JStr ''string'')])])
   \<and> parse_type remdups (Generic OUnion [Generic OList [Plain PyInt], Generic OList [Plain PyStr]])
     \<noteq> Inr (JObj [(''type'', JList [JStr ''array'']), (''items'', JObj [(''type'', JStr ''integer'')])])"
  by (simp add: parse_type.simps union_loop.simps type_map_get_def type_map_def dict_get_def)

subsection \<open>Annotations that parse\<close>

lemma members_parse:
  "\<forall>a \<in> set args. \<exists>p t. parse_type sl a = Inr (JObj p) \<and> dict_get p ''type'' = Some t \<and> hashable t
   \<Longrightarrow> \<exists>ps. map (parse_type sl) args = map (\<lambda>p. Inr (JObj p)) ps
            \<and> list_all hashable
                 (map (\<lambda>p. case dict_get p ''type'' of None \<Rightarrow> JStr ''string'' | Some t \<Rightarrow> t) ps)"
proof (induction args)
  case Nil
  then show ?case by simp
next
  case (Cons a args)
  from Cons.prems obtain p t where p: "parse_type sl a = Inr (JObj p)" "dict_get p ''type'' = Some t"
    "hashable t" by auto
  from Cons have "\<exists>ps. map (parse_type sl) args = map (\<lambda>p. Inr (JObj p)) ps
            \<and> list_all hashable
                 (map (\<lambda>p. case dict_get p ''type'' of None \<Rightarrow> JStr ''string'' | Some t \<Rightarrow> t) ps)"
    by simp
  then obtain ps where ps: "map (parse_type sl) args = map (\<lambda>p. Inr (JObj p)) ps"
    "list_all hashable
                 (map (\<lambda>p. case dict_get p ''type'' of None \<Rightarrow> JStr ''string'' | Some t \<Rightarrow> t) ps)"
    by blast
  show ?case
    by (rule exI[of _ "p # ps"]) (simp add: p ps)
qed

text \<open>
  On an annotation with flat unions that can be hashed where it is looked up,
  \<open>parse_type\<close> returns an object fragment with a type.
\<close>

lemma parse_type_returns:
  "parses a \<Longrightarrow>
   \<exists>p t. parse_type sl a = Inr (JObj p) \<and> dict_get p ''type'' = Some t
         \<and> (\<not> is_union a \<longrightarrow> hashable t)"
proof (induction a)
  case (Plain c)
  then show ?case by (simp add: parse_type.simps dict_get_def)
next
  case (Generic g args)
  have ih: "\<forall>a \<in> set args. \<exists>p t. parse_type sl a = Inr (JObj p)
      \<and> dict_get p ''type'' = Some t \<and> (\<not> is_union a \<longrightarrow> hashable t)"
    if "list_all parses args"
    using that Generic.IH by (simp add: list_all_iff)
  show ?case
  proof (cases g)
    case OUnion
    with Generic.prems have "list_all parses args" by simp
    note ih = ih[OF this]
    from Generic.prems OUnion have "\<forall>a \<in> set args. \<not> is_union a" by (simp add: list_all_iff)
    with ih have mem: "\<forall>a \<in> set args. \<exists>p t. parse_type sl a = Inr (JObj p)
      \<and> dict_get p ''type'' = Some t \<and> hashable t" by blast
    show ?thesis
    proof (cases "Plain PyNoneType \<in> set args
                  \<and> (\<exists>t. filter (\<lambda>arg. arg \<noteq> Plain PyNoneType) args = [t])")
      case True
      then obtain T where T: "filter (\<lambda>arg. arg \<noteq> Plain PyNoneType) args = [T]" by blast
      then have "T \<in> set (filter (\<lambda>arg. arg \<noteq> Plain PyNoneType) args)" by simp
      then have "T \<in> set args" by simp
      with mem obtain p t where "parse_type sl T = Inr (JObj p)" "dict_get p ''type'' = Some t"
        by blast
      with True T OUnion show ?thesis
        by (simp add: parse_type.simps dict_get_dict_set)
    next
      case False
      then have opt: "(if Plain PyNoneType \<in> set args then
              (case filter (\<lambda>arg. arg \<noteq> Plain PyNoneType) args of
                 [t] \<Rightarrow>
                   (case parse_type sl t of
                      Inl e \<Rightarrow> Some (Inl e)
                    | Inr parsed \<Rightarrow>
                        (case parsed of
                           JObj p \<Rightarrow>
                             if dict_get p ''type'' \<noteq> None
                             then Some (Inr (JObj (dict_set p ''nullable'' (JBool True))))
                             else None
                         | _ \<Rightarrow> None))
               | _ \<Rightarrow> None)
            else None) = None"
        by (auto split: list.splits)
      from members_parse[OF mem] obtain ps where
        ps: "map (parse_type sl) args = map (\<lambda>p. Inr (JObj p)) ps" and
        h: "list_all hashable
              (map (\<lambda>p. case dict_get p ''type'' of None \<Rightarrow> JStr ''string'' | Some t \<Rightarrow> t) ps)"
        by blast
      have "parse_type sl (Generic OUnion args) =
              (case union_loop sl args [] JNull of
                 Inl e \<Rightarrow> Inl e
               | Inr (types, items) \<Rightarrow>
                   if \<not> list_all hashable types then Inl TypeError
                   else
                     Inr (JObj ((''type'', JList (sl types)) #
                                (if truthy items then [(''items'', items)] else []))))"
        by (subst parse_type.simps(1), subst opt) simp
      then have "\<exists>tys rest. parse_type sl (Generic OUnion args)
                              = Inr (JObj ((''type'', JList tys) # rest))"
        by (simp add: union_loop_result[OF ps] h)
      then show ?thesis
        by (auto simp: OUnion dict_get_def)
    qed
  next
    case OList
    with Generic.prems have "list_all parses args" by simp
    note ih = ih[OF this]
    show ?thesis
    proof (cases args)
      case Nil
      with OList show ?thesis by (simp add: parse_type.simps dict_get_def)
    next
      case (Cons a rest)
      with ih obtain p where "parse_type sl a = Inr (JObj p)" by auto
      with OList Cons show ?thesis by (simp add: parse_type.simps dict_get_def)
    qed
  next
    case ODict
    with Generic.prems have "list_all parses args" by simp
    note ih = ih[OF this]
    show ?thesis
    proof (cases "\<exists>k v. args = [k, v]")
      case True
      then obtain k v where kv: "args = [k, v]" by blast
      with ih obtain p where "parse_type sl v = Inr (JObj p)" by auto
      with ODict kv show ?thesis by (simp add: parse_type.simps dict_get_def)
    next
      case False
      then have "(case args of [key_type, value_type] \<Rightarrow> X key_type value_type | _ \<Rightarrow> Y) = Y" for X and Y :: "py_error + json"
        by (auto split: list.splits)
      with ODict show ?thesis by (simp add: parse_type.simps dict_get_def)
    qed
  next
    case (OOther n h)
    with Generic.prems show ?thesis by (simp add: parse_type.simps dict_get_def)
  qed
qed

text \<open>
  The loop over the parameters returns when every annotation parses and no comparison
  with the sentinel raises.
\<close>

lemma build_parameters_returns:
  "\<forall>p \<in> set ps. (\<forall>a. pannotation p = Given a \<longrightarrow> parses a)
                  \<and> (\<forall>e. pannotation p \<noteq> GivenEqRaises e) \<Longrightarrow>
   \<exists>props. build_parameters sl ps acc = Inr props"
proof (induction ps arbitrary: acc)
  case Nil
  then show ?case by simp
next
  case (Cons p ps)
  have "\<exists>fragment. param_type sl p = Inr fragment"
  proof (cases "pannotation p")
    case (Given a)
    with Cons.prems have "parses a" by simp
    from parse_type_returns[OF this, of sl] Given show ?thesis by (auto simp: param_type_def)
  next
    case (GivenEqRaises e)
    with Cons.prems show ?thesis by simp
  qed (simp_all add: param_type_def)
  then obtain fragment where "param_type sl p = Inr fragment" by blast
  moreover from Cons have "\<exists>props. build_parameters sl ps (dict_set acc (pname p) fragment) = Inr props"
    by simp
  ultimately show ?case by simp
qed

subsection \<open>Required parameters\<close>

lemma build_parameters_keys:
  "build_parameters sl ps acc = Inr props \<Longrightarrow> distinct (map fst acc @ map pname ps)
   \<Longrightarrow> map fst props = map fst acc @ map pname ps"
proof (induction ps arbitrary: acc)
  case Nil
  then show ?case by simp
next
  case (Cons p ps)
  from Cons.prems(1) obtain fragment where
    f: "param_type sl p = Inr fragment" and
    r: "build_parameters sl ps (dict_set acc (pname p) fragment) = Inr props"
    by (auto split: sum.splits)
  from Cons.prems(2) have fresh: "pname p \<notin> set (map fst acc)" by auto
  then have k: "map fst (dict_set acc (pname p) fragment) = map fst acc @ [pname p]"
    by (simp add: keys_dict_set)
  from Cons.prems(2) have "distinct (map fst (dict_set acc (pname p) fragment) @ map pname ps)"
    by (simp add: k)
  from Cons.IH[OF r this] show ?case by (simp add: k)
qed

lemma build_parameters_fragment:
  "build_parameters sl ps acc = Inr props \<Longrightarrow> distinct (map pname ps) \<Longrightarrow> p \<in> set ps \<Longrightarrow>
   \<exists>fragment. param_type sl p = Inr fragment \<and> dict_get props (pname p) = Some fragment"
proof (induction ps arbitrary: acc)
  case Nil
  then show ?case by simp
next
  case (Cons q ps)
  from Cons.prems(1) obtain fragment where
    f: "param_type sl q = Inr fragment" and
    r: "build_parameters sl ps (dict_set acc (pname q) fragment) = Inr props"
    by (auto split: sum.splits)
  from Cons.prems(2) have d: "distinct (map pname ps)" and fresh: "pname q \<notin> pname ` set ps"
    by auto
  show ?case
  proof (cases "p = q")
    case True
    have keep: "build_parameters sl ps acc' = Inr props' \<Longrightarrow> k \<notin> pname ` set ps \<Longrightarrow>
                dict_get props' k = dict_get acc' k" for acc' props' k
    proof (induction ps arbitrary: acc')
      case Nil
      then show ?case by simp
    next
      case (Cons x xs)
      from Cons.prems(1) obtain g where
        "build_parameters sl xs (dict_set acc' (pname x) g) = Inr props'"
        by (auto split: sum.splits)
      from Cons.IH[OF this] Cons.prems(2) show ?case by (simp add: dict_get_dict_set)
    qed
    from keep[OF r fresh] True f show ?thesis by (simp add: dict_get_dict_set)
  next
    case False
    with Cons.prems(3) have "p \<in> set ps" by simp
    from Cons.IH[OF r d this] show ?thesis .
  qed
qed

text \<open>
  The names in \<^verbatim>\<open>required\<close>, when no comparison raises: those of the parameters whose
  default is absent or is an object equal to everything.
\<close>

lemma required_names_returns:
  "\<forall>p \<in> set ps. \<forall>e. pdefault p \<noteq> GivenEqRaises e \<Longrightarrow>
   required_names ps
     = Inr (map pname (filter (\<lambda>p. pdefault p = Absent \<or> pdefault p = GivenEqAll) ps))"
proof (induction ps)
  case Nil
  then show ?case by simp
next
  case (Cons p ps)
  then show ?case by (cases "pdefault p") simp_all
qed

text \<open>
  What the code does where the comparisons with the sentinel are the usual ones. For a
  function with a name, whose signature can be read, whose parameters have distinct names
  (as Python requires), annotations that parse and defaults with the usual equality:
  \<open>function_to_json\<close> returns a descriptor of the shape below; its \<open>required\<close> list is the
  names of the parameters without a default, in declaration order, whatever their
  annotations; a parameter's name is in \<open>required\<close> exactly when it has no default; and
  the keys of \<open>properties\<close> are the parameter names, in declaration order.
\<close>

lemma required_of_usual_defaults:
  assumes sig: "fsignature func = Some params"
    and name: "fname func = Some name"
    and names: "distinct (map pname params)"
    and anns: "\<forall>p \<in> set params. (\<forall>a. pannotation p = Given a \<longrightarrow> parses a)
                                   \<and> (\<forall>e. pannotation p \<noteq> GivenEqRaises e)"
    and defaults: "\<forall>p \<in> set params. pdefault p = Absent \<or> (\<exists>v. pdefault p = Given v)"
  shows "\<exists>props.
      function_to_json sl func = Inr (JObj [(''type'', JStr ''function''),
                (''function'',
                 JObj [(''name'', JStr name),
                       (''description'', JStr (case fdoc func of None \<Rightarrow> [] | Some x \<Rightarrow> x)),
                       (''parameters'',
                        JObj [(''type'', JStr ''object''),
                              (''properties'', JObj props),
                              (''required'',
                               JList (map JStr (map pname
                                        (filter (\<lambda>p. pdefault p = Absent) params))))])])])
      \<and> map fst props = map pname params
      \<and> (\<forall>p \<in> set params.
            (pname p \<in> set (map pname (filter (\<lambda>p. pdefault p = Absent) params)))
            = (pdefault p = Absent))"
proof -
  from build_parameters_returns[OF anns, of sl "[]"] obtain props where
    b: "build_parameters sl params [] = Inr props" by blast
  from defaults have nr: "\<forall>p \<in> set params. \<forall>e. pdefault p \<noteq> GivenEqRaises e" by auto
  from defaults have "filter (\<lambda>p. pdefault p = Absent \<or> pdefault p = GivenEqAll) params
                        = filter (\<lambda>p. pdefault p = Absent) params"
    by (intro filter_cong) auto
  with required_names_returns[OF nr]
  have r: "required_names params = Inr (map pname (filter (\<lambda>p. pdefault p = Absent) params))"
    by simp
  from sig name b r have d: "function_to_json sl func = Inr (JObj [(''type'', JStr ''function''),
                (''function'',
                 JObj [(''name'', JStr name),
                       (''description'', JStr (case fdoc func of None \<Rightarrow> [] | Some x \<Rightarrow> x)),
                       (''parameters'',
                        JObj [(''type'', JStr ''object''),
                              (''properties'', JObj props),
                              (''required'',
                               JList (map JStr (map pname
                                        (filter (\<lambda>p. pdefault p = Absent) params))))])])])"
    by (simp add: function_to_json_def)
  from build_parameters_keys[OF b] names have k: "map fst props = map pname params" by simp
  have iff: "\<forall>p \<in> set params.
            (pname p \<in> set (map pname (filter (\<lambda>p. pdefault p = Absent) params)))
            = (pdefault p = Absent)"
  proof
    fix p assume p: "p \<in> set params"
    show "(pname p \<in> set (map pname (filter (\<lambda>p. pdefault p = Absent) params)))
            = (pdefault p = Absent)"
    proof
      assume "pname p \<in> set (map pname (filter (\<lambda>p. pdefault p = Absent) params))"
      then obtain q where q: "q \<in> set params" "pdefault q = Absent" "pname q = pname p" by auto
      from names q(1) p q(3) have "q = p" by (meson distinct_map inj_onD)
      with q(2) show "pdefault p = Absent" by simp
    next
      assume "pdefault p = Absent"
      with p show "pname p \<in> set (map pname (filter (\<lambda>p. pdefault p = Absent) params))"
        by auto
    qed
  qed
  from d k iff show ?thesis by blast
qed

text \<open>The specification's end-to-end example.\<close>

lemma add_example_descriptor:
  "function_to_json sl add_example
     = Inr (JObj [(''type'', JStr ''function''),
                  (''function'',
                   JObj [(''name'', JStr ''add''),
                         (''description'', JStr ''Add two numbers''),
                         (''parameters'',
                          JObj [(''type'', JStr ''object''),
                                (''properties'',
                                 JObj [(''a'', JObj [(''type'', JStr ''integer'')]),
                                       (''b'', JObj [(''type'', JStr ''integer'')])]),
                                (''required'', JList [JStr ''a''])])])])"
proof -
  have b: "build_parameters sl
             [\<lparr>pname = ''a'', pannotation = Given (Plain PyInt), pdefault = Absent\<rparr>,
              \<lparr>pname = ''b'', pannotation = Given (Plain PyInt), pdefault = Given (JInt 0)\<rparr>] []
             = Inr [(''a'', JObj [(''type'', JStr ''integer'')]),
                    (''b'', JObj [(''type'', JStr ''integer'')])]"
    by (simp add: param_type_def parse_type_lookup)
  show ?thesis
    by (simp add: function_to_json_def add_example_def b del: build_parameters.simps)
qed

text \<open>
  C7. The test for a default is \<^verbatim>\<open>param.default == inspect.Parameter.empty\<close>, an
  equality that the default answers, not a test that the parameter holds the sentinel.
  For \<^verbatim>\<open>def f(x=unittest.mock.ANY, y=0)\<close>, where \<open>x\<close> has a default that is equal to
  everything, the descriptor lists \<open>x\<close> in \<open>required\<close>, though both parameters have a
  default; \<open>y\<close>, whose default has the usual equality, is not listed.
\<close>

theorem default_equal_to_all_is_required:
  "function_to_json sl
     \<lparr>fname = Some ''f'', fdoc = None,
      fsignature = Some [\<lparr>pname = ''x'', pannotation = Absent, pdefault = GivenEqAll\<rparr>,
                         \<lparr>pname = ''y'', pannotation = Absent, pdefault = Given (JInt 0)\<rparr>]\<rparr>
   = Inr (JObj [(''type'', JStr ''function''),
                (''function'',
                 JObj [(''name'', JStr ''f''),
                       (''description'', JStr []),
                       (''parameters'',
                        JObj [(''type'', JStr ''object''),
                              (''properties'',
                               JObj [(''x'', JObj [(''type'', JStr ''string'')]),
                                     (''y'', JObj [(''type'', JStr ''string'')])]),
                              (''required'', JList [JStr ''x''])])])])"
proof -
  have b: "build_parameters sl
             [\<lparr>pname = ''x'', pannotation = Absent, pdefault = GivenEqAll\<rparr>,
              \<lparr>pname = ''y'', pannotation = Absent, pdefault = Given (JInt 0)\<rparr>] []
             = Inr [(''x'', JObj [(''type'', JStr ''string'')]),
                    (''y'', JObj [(''type'', JStr ''string'')])]"
    by (simp add: param_type_def)
  show ?thesis
    by (simp add: function_to_json_def b del: build_parameters.simps)
qed

subsection \<open>Annotations that cannot be hashed\<close>

text \<open>
  What the code does where the annotation can be hashed. For a function whose descriptor
  is built and whose parameters have distinct names, the fragment of a parameter in
  \<open>properties\<close> is \<open>{type: "string"}\<close> when its annotation is absent, or is a plain object
  that can be hashed and is not in the table, or is an alias of another origin that can
  be hashed.
\<close>

lemma unmapped_annotation_is_string:
  assumes sig: "fsignature func = Some params"
    and names: "distinct (map pname params)"
    and ret: "function_to_json sl func = Inr d"
    and p: "p \<in> set params"
    and ann: "pannotation p = Absent \<or> pannotation p = Given (Plain (PyOther c))
              \<or> pannotation p = Given (Generic (OOther g True) args)"
  shows "\<exists>top name description required props.
           d = JObj [(''type'', top),
                     (''function'',
                      JObj [(''name'', name), (''description'', description),
                            (''parameters'',
                             JObj [(''type'', JStr ''object''),
                                   (''properties'', JObj props),
                                   (''required'', required)])])]
         \<and> dict_get props (pname p) = Some (JObj [(''type'', JStr ''string'')])"
proof -
  from ret sig obtain props where
    b: "build_parameters sl params [] = Inr props" and
    d: "\<exists>top name description required.
           d = JObj [(''type'', top),
                     (''function'',
                      JObj [(''name'', name), (''description'', description),
                            (''parameters'',
                             JObj [(''type'', JStr ''object''),
                                   (''properties'', JObj props),
                                   (''required'', required)])])]"
    by (auto simp: function_to_json_def split: sum.splits option.splits)
  from build_parameters_fragment[OF b names p] obtain fragment where
    f: "param_type sl p = Inr fragment" "dict_get props (pname p) = Some fragment" by blast
  from ann f(1) have "fragment = JObj [(''type'', JStr ''string'')]"
    by (auto simp: param_type_def parse_type_lookup)
  with f(2) d show ?thesis by blast
qed

text \<open>
  C9. The lookup \<^verbatim>\<open>type_map.get(annotation, "string")\<close> hashes the annotation, so an
  annotation that is not in the table and cannot be hashed does not get \<open>{type: "string"}\<close>:
  the lookup raises TypeError, and so does \<open>function_to_json\<close>. For
  \<^verbatim>\<open>def f(x: Annotated[int, [1]])\<close> and for \<^verbatim>\<open>def f(x: [int])\<close> no descriptor is built;
  for \<^verbatim>\<open>def f(x: Annotated[int, "m"])\<close>, whose annotation can be hashed, the fragment of
  \<open>x\<close> is \<open>{type: "string"}\<close>.
\<close>

theorem unhashable_annotation_raises:
  "function_to_json sl
     \<lparr>fname = Some ''f'', fdoc = None,
      fsignature = Some [\<lparr>pname = ''x'',
                          pannotation = Given (Generic (OOther ''Annotated'' False)
                                                 [Plain PyInt, Plain (PyUnhashable ''[1]'')]),
                          pdefault = Absent\<rparr>]\<rparr>
     = Inl TypeError
   \<and> function_to_json sl
     \<lparr>fname = Some ''f'', fdoc = None,
      fsignature = Some [\<lparr>pname = ''x'', pannotation = Given (Plain (PyUnhashable ''[int]'')),
                          pdefault = Absent\<rparr>]\<rparr>
     = Inl TypeError
   \<and> function_to_json sl
     \<lparr>fname = Some ''f'', fdoc = None,
      fsignature = Some [\<lparr>pname = ''x'',
                          pannotation = Given (Generic (OOther ''Annotated'' True)
                                                 [Plain PyInt, Plain (PyOther ''m'')]),
                          pdefault = Absent\<rparr>]\<rparr>
     = Inr (JObj [(''type'', JStr ''function''),
                  (''function'',
                   JObj [(''name'', JStr ''f''),
                         (''description'', JStr []),
                         (''parameters'',
                          JObj [(''type'', JStr ''object''),
                                (''properties'', JObj [(''x'', JObj [(''type'', JStr ''string'')])]),
                                (''required'', JList [JStr ''x''])])])])"
  by (simp add: function_to_json_def param_type_def parse_type_lookup)

section \<open>Properties of the merge\<close>

subsection \<open>The keys of a document are kept\<close>

lemma dict_get_Some_key: "dict_get t k = Some v \<Longrightarrow> k \<in> fst ` set t"
  by (metis dict_get_def map_of_eq_None_iff option.distinct(1))

lemma keys_kept_list_refl_aux: "\<forall>x \<in> set xs. keys_kept x x \<Longrightarrow> keys_kept_list xs xs"
  by (induction xs) auto

lemma keys_kept_items_refl_aux:
  "\<forall>kv \<in> set d. keys_kept (snd kv) (snd kv) \<Longrightarrow> keys_kept_items d d"
  by (induction d) auto

lemma keys_kept_refl: "keys_kept a a"
proof (induction a)
  case (JList xs)
  then show ?case by (simp add: keys_kept_list_refl_aux)
next
  case (JObj d)
  have "\<forall>kv \<in> set d. keys_kept (snd kv) (snd kv)"
  proof
    fix kv assume "kv \<in> set d"
    then show "keys_kept (snd kv) (snd kv)" using JObj[of kv "snd kv"]
      by (cases kv) (auto simp: snds.simps)
  qed
  then show ?case by (simp add: keys_kept_items_refl_aux)
qed simp_all

lemma keys_kept_list_refl: "keys_kept_list xs xs"
  by (simp add: keys_kept_list_refl_aux keys_kept_refl)

lemma keys_kept_items_refl: "keys_kept_items d d"
  by (simp add: keys_kept_items_refl_aux keys_kept_refl)

lemma keys_kept_scalar: "scalar a \<Longrightarrow> keys_kept a b = scalar b"
  by (cases a) simp_all

lemma keys_kept_list_scalars:
  "list_all scalar ys \<Longrightarrow> keys_kept_list ys zs \<Longrightarrow> list_all scalar zs"
proof (induction ys arbitrary: zs)
  case Nil
  then show ?case by simp
next
  case (Cons y ys)
  then show ?case by (cases zs) (auto simp: keys_kept_scalar)
qed

lemma keys_kept_list_trans:
  assumes "\<And>x b c. x \<in> set xs \<Longrightarrow> keys_kept x b \<Longrightarrow> keys_kept b c \<Longrightarrow> keys_kept x c"
    and "keys_kept_list xs ys" and "keys_kept_list ys zs"
  shows "keys_kept_list xs zs"
  using assms
proof (induction xs arbitrary: ys zs)
  case Nil
  then show ?case by (simp add: keys_kept_list_scalars)
next
  case (Cons x xs)
  from Cons.prems(2) obtain y ys' where ys: "ys = y # ys'" "keys_kept x y" "keys_kept_list xs ys'"
    by (cases ys) auto
  from Cons.prems(3) ys(1) obtain z zs' where zs: "zs = z # zs'" "keys_kept y z" "keys_kept_list ys' zs'"
    by (cases zs) auto
  have "keys_kept x z" using Cons.prems(1)[of x y z] ys(2) zs(2) by simp
  moreover have "keys_kept_list xs zs'"
    using Cons.IH[OF _ ys(3) zs(3)] Cons.prems(1) by auto
  ultimately show ?case using zs(1) by simp
qed

lemma keys_kept_items_trans:
  assumes "\<And>k v b c. (k, v) \<in> set d \<Longrightarrow> keys_kept v b \<Longrightarrow> keys_kept b c \<Longrightarrow> keys_kept v c"
    and "keys_kept_items d d'" and "keys_kept_items d' d''"
  shows "keys_kept_items d d''"
  using assms
proof (induction d arbitrary: d' d'')
  case Nil
  then show ?case by simp
next
  case (Cons kv d)
  obtain k v where kv: "kv = (k, v)" by (cases kv)
  from Cons.prems(2) kv obtain v' r' where d': "d' = (k, v') # r'" "keys_kept v v'" "keys_kept_items d r'"
    by (cases d') auto
  from Cons.prems(3) d'(1) obtain v'' r'' where
    d'': "d'' = (k, v'') # r''" "keys_kept v' v''" "keys_kept_items r' r''"
    by (cases d'') auto
  have "keys_kept v v''" using Cons.prems(1)[of k v v' v''] kv d'(2) d''(2) by simp
  moreover have "keys_kept_items d r''"
    using Cons.IH[OF _ d'(3) d''(3)] Cons.prems(1) by auto
  ultimately show ?case using d''(1) kv by simp
qed

lemma keys_kept_trans: "keys_kept a b \<Longrightarrow> keys_kept b c \<Longrightarrow> keys_kept a c"
proof (induction a arbitrary: b c)
  case (JList xs)
  from JList.prems(1) obtain ys where b: "b = JList ys" "keys_kept_list xs ys"
    by (cases b) auto
  from JList.prems(2) b(1) obtain zs where c: "c = JList zs" "keys_kept_list ys zs"
    by (cases c) auto
  have "keys_kept_list xs zs"
    by (rule keys_kept_list_trans[OF _ b(2) c(2)]) (use JList.IH in blast)
  then show ?case using c(1) by simp
next
  case (JObj d)
  from JObj.prems(1) obtain d' where b: "b = JObj d'" "keys_kept_items d d'"
    by (cases b) auto
  from JObj.prems(2) b(1) obtain d'' where c: "c = JObj d''" "keys_kept_items d' d''"
    by (cases c) auto
  have "keys_kept_items d d''"
  proof (rule keys_kept_items_trans[OF _ b(2) c(2)])
    fix k v b c assume "(k, v) \<in> set d" "keys_kept v b" "keys_kept b c"
    then show "keys_kept v c" using JObj.IH[of "(k, v)" v b c] by (auto simp: snds.simps)
  qed
  then show ?case using c(1) by simp
qed (auto simp: keys_kept_scalar)

lemma keys_kept_items_keys: "keys_kept_items d d' \<Longrightarrow> map fst d' = map fst d"
proof (induction d arbitrary: d')
  case Nil
  then show ?case by simp
next
  case (Cons kv d)
  then show ?case by (cases kv; cases d') auto
qed

lemma keys_kept_items_dict_set:
  "dict_get d k = Some old \<Longrightarrow> keys_kept old new \<Longrightarrow> keys_kept_items d (dict_set d k new)"
  by (induction d) (auto simp: dict_get_def keys_kept_refl keys_kept_items_refl split: if_splits)

lemma keys_kept_list_update:
  "p < length xs \<Longrightarrow> keys_kept (xs ! p) new \<Longrightarrow> keys_kept_list xs (xs[p := new])"
proof (induction xs arbitrary: p)
  case Nil
  then show ?case by simp
next
  case (Cons x xs)
  then show ?case by (cases p) (auto simp: keys_kept_refl keys_kept_list_refl)
qed

lemma keys_kept_list_append:
  "list_all scalar ys \<Longrightarrow> keys_kept_list xs (xs @ ys)"
  by (induction xs) (auto simp: keys_kept_refl)

lemma keys_kept_iadd: "iadd old s = Inr new \<Longrightarrow> keys_kept old new"
  by (cases old) (auto simp: keys_kept_list_append list_all_iff)

lemma list_index_less: "list_index n i = Some p \<Longrightarrow> p < n"
  by (auto simp: list_index_def split: if_splits)

lemma keys_kept_store_item:
  "getitem c key = Inr old \<Longrightarrow> keys_kept old new \<Longrightarrow> keys_kept c (store_item c key new)"
proof (cases c)
  case (JList xs)
  assume "getitem c key = Inr old" "keys_kept old new"
  with JList show ?thesis
    by (auto simp: keys_kept_list_update list_index_less split: option.splits)
next
  case (JObj d)
  assume "getitem c key = Inr old" "keys_kept old new"
  with JObj show ?thesis
    by (cases key) (auto simp: keys_kept_items_dict_set split: option.splits if_splits)
qed (auto simp: keys_kept_refl)

lemma merge_fields_keys_kept: "keys_kept target (target_after (merge_fields target src))"
proof (induction target src rule: merge_fields.induct)
  case (1 target)
  then show ?case by (simp add: target_after_def keys_kept_refl)
next
  case (2 target key val rest)
  show ?case
  proof (cases val)
    case (JStr s)
    show ?thesis
    proof (cases "getitem target (JStr key)")
      case (Inl e)
      then show ?thesis using JStr by (simp add: target_after_def keys_kept_refl)
    next
      case (Inr old)
      show ?thesis
      proof (cases "iadd old s")
        case (Inl e)
        then show ?thesis using JStr Inr by (simp add: target_after_def keys_kept_refl)
      next
        case new: (Inr new)
        have a: "keys_kept target (store_item target (JStr key) new)"
          by (rule keys_kept_store_item[OF Inr keys_kept_iadd[OF new]])
        have b: "keys_kept (store_item target (JStr key) new)
                   (target_after (merge_fields (store_item target (JStr key) new) rest))"
          by (rule "2.IH"(5)[OF JStr Inr new])
        show ?thesis using keys_kept_trans[OF a b] JStr Inr new by simp
      qed
    qed
  next
    case (JObj src)
    show ?thesis
    proof (cases "getitem target (JStr key)")
      case (Inl e)
      then show ?thesis using JObj by (simp add: target_after_def keys_kept_refl)
    next
      case (Inr sub)
      have s: "keys_kept sub (target_after (merge_fields sub src))"
        by (rule "2.IH"(7)[OF JObj Inr])
      show ?thesis
      proof (cases "merge_fields sub src")
        case (Inl es)
        obtain e sub' where es: "es = (e, sub')" by (cases es)
        from s Inl es have "keys_kept sub sub'" by (simp add: target_after_def)
        from keys_kept_store_item[OF Inr this]
        show ?thesis using JObj Inr Inl es by (simp add: target_after_def)
      next
        case sub': (Inr sub')
        from s sub' have "keys_kept sub sub'" by (simp add: target_after_def)
        from keys_kept_store_item[OF Inr this]
        have a: "keys_kept target (store_item target (JStr key) sub')" .
        have b: "keys_kept (store_item target (JStr key) sub')
                   (target_after (merge_fields (store_item target (JStr key) sub') rest))"
          by (rule "2.IH"(8)[OF JObj Inr sub'])
        show ?thesis using keys_kept_trans[OF a b] JObj Inr sub' by simp
      qed
    qed
  qed (use 2 in \<open>simp_all\<close>)
qed

subsection \<open>What \<open>merge_fields\<close> changes\<close>

lemma dict_get_dict_pop:
  "dict_get (dict_pop k d) k' = (if k' = k then None else dict_get d k')"
  by (induction d) (auto simp: dict_get_def dict_pop_def)

lemma distinct_dict_pop: "distinct (map fst d) \<Longrightarrow> distinct (map fst (dict_pop k d))"
  by (simp add: dict_pop_def distinct_map_filter)

lemma dict_get_member: "distinct (map fst d) \<Longrightarrow> (dict_get d k = Some v) = ((k, v) \<in> set d)"
  by (simp add: dict_get_def)

lemma getitem_store_other:
  "k \<noteq> key \<Longrightarrow> getitem (store_item c (JStr key) v) (JStr k) = getitem c (JStr k)"
  by (cases c) (simp_all add: dict_get_dict_set)

lemma getitem_store_same:
  "getitem c (JStr k) = Inr old \<Longrightarrow> getitem (store_item c (JStr k) v) (JStr k) = Inr v"
  by (cases c) (simp_all add: dict_get_dict_set)

lemma iadd_empty: "iadd old [] = Inr new \<Longrightarrow> new = old"
  by (cases old) auto

lemma getitem_store_unchanged:
  "getitem c (JStr key) = Inr old \<Longrightarrow>
   getitem (store_item c (JStr key) old) (JStr k) = getitem c (JStr k)"
  by (cases "k = key") (simp_all add: getitem_store_same getitem_store_other)

text \<open>
  A key under which the source has no string and no object, or an empty one, is left
  alone, whether the call returns or raises.
\<close>

lemma merge_fields_frame_empty:
  "\<forall>v. (k, v) \<in> set src \<longrightarrow> \<not> merged_kind v \<or> \<not> truthy v \<Longrightarrow>
   getitem (target_after (merge_fields target src)) (JStr k) = getitem target (JStr k)"
proof (induction target src rule: merge_fields.induct)
  case (1 target)
  then show ?case by (simp add: target_after_def)
next
  case (2 target key val rest)
  from "2.prems" have rest: "\<forall>v. (k, v) \<in> set rest \<longrightarrow> \<not> merged_kind v \<or> \<not> truthy v"
    by simp
  show ?case
  proof (cases val)
    case (JStr s)
    with "2.prems" have ne: "k \<noteq> key \<or> s = []" by auto
    show ?thesis
    proof (cases "getitem target (JStr key)")
      case (Inl e)
      then show ?thesis using JStr by (simp add: target_after_def)
    next
      case (Inr old)
      show ?thesis
      proof (cases "iadd old s")
        case (Inl e)
        then show ?thesis using JStr Inr by (simp add: target_after_def)
      next
        case new: (Inr new)
        from ne have "getitem (store_item target (JStr key) new) (JStr k) = getitem target (JStr k)"
        proof
          assume "k \<noteq> key"
          then show ?thesis by (simp add: getitem_store_other)
        next
          assume "s = []"
          with new have "new = old" by (simp add: iadd_empty)
          then show ?thesis using Inr by (simp add: getitem_store_unchanged)
        qed
        with "2.IH"(5)[OF JStr Inr new rest] show ?thesis
          using JStr Inr new by simp
      qed
    qed
  next
    case (JObj src)
    with "2.prems" have ne: "k \<noteq> key \<or> src = []" by auto
    show ?thesis
    proof (cases "getitem target (JStr key)")
      case (Inl e)
      then show ?thesis using JObj by (simp add: target_after_def)
    next
      case (Inr sub)
      show ?thesis
      proof (cases "merge_fields sub src")
        case (Inl es)
        with ne have "k \<noteq> key" by auto
        then show ?thesis using JObj Inr Inl
          by (cases es) (simp add: target_after_def getitem_store_other)
      next
        case sub': (Inr sub')
        from ne have "getitem (store_item target (JStr key) sub') (JStr k) = getitem target (JStr k)"
        proof
          assume "k \<noteq> key"
          then show ?thesis by (simp add: getitem_store_other)
        next
          assume "src = []"
          with sub' have "sub' = sub" by simp
          then show ?thesis using Inr by (simp add: getitem_store_unchanged)
        qed
        with "2.IH"(8)[OF JObj Inr sub' rest] show ?thesis
          using JObj Inr sub' by simp
      qed
    qed
  qed (use 2 rest in \<open>simp_all\<close>)
qed

lemma merge_fields_frame:
  "\<forall>v. (k, v) \<in> set src \<longrightarrow> \<not> merged_kind v \<Longrightarrow>
   getitem (target_after (merge_fields target src)) (JStr k) = getitem target (JStr k)"
  by (rule merge_fields_frame_empty) blast



text \<open>Merging a source is merging its fields one after the other, up to the first that raises.\<close>

lemma merge_fields_append:
  "merge_fields target (xs @ ys)
     = (case merge_fields target xs of Inl r \<Rightarrow> Inl r | Inr t \<Rightarrow> merge_fields t ys)"
proof (induction xs arbitrary: target)
  case Nil
  then show ?case by simp
next
  case (Cons kv xs)
  obtain key val where kv: "kv = (key, val)" by (cases kv)
  show ?case
    by (cases val) (simp_all add: kv Cons.IH split: sum.splits prod.splits)
qed

text \<open>
  A merge that raises has a failing field: the fields before it merge and return, and
  merging the failing field alone into what they leave raises the same exception and
  leaves the same target.
\<close>

lemma merge_fields_failing_field:
  "merge_fields target src = Inl (e, t') \<Longrightarrow>
   \<exists>n t1. n < length src \<and> merge_fields target (take n src) = Inr t1
     \<and> merge_fields t1 [src ! n] = Inl (e, t')"
proof (induction src arbitrary: target)
  case Nil
  then show ?case by simp
next
  case (Cons kv rest)
  have split: "merge_fields target (kv # xs)
                 = (case merge_fields target [kv] of Inl r \<Rightarrow> Inl r | Inr t \<Rightarrow> merge_fields t xs)"
    for xs
    using merge_fields_append[of target "[kv]" xs] by simp
  show ?case
  proof (cases "merge_fields target [kv]")
    case (Inl r)
    with Cons.prems split[of rest] have "merge_fields target [kv] = Inl (e, t')" by simp
    then have "0 < length (kv # rest) \<and> merge_fields target (take 0 (kv # rest)) = Inr target
               \<and> merge_fields target [(kv # rest) ! 0] = Inl (e, t')"
      by simp
    then show ?thesis by blast
  next
    case (Inr t)
    with Cons.prems split[of rest] have "merge_fields t rest = Inl (e, t')" by simp
    from Cons.IH[OF this] obtain n t1 where
      n: "n < length rest" and t1: "merge_fields t (take n rest) = Inr t1" and
      f: "merge_fields t1 [rest ! n] = Inl (e, t')"
      by blast
    from t1 Inr split[of "take n rest"] have "merge_fields target (take (Suc n) (kv # rest)) = Inr t1"
      by simp
    with n f have "Suc n < length (kv # rest)
               \<and> merge_fields target (take (Suc n) (kv # rest)) = Inr t1
               \<and> merge_fields t1 [(kv # rest) ! Suc n] = Inl (e, t')"
      by simp
    then show ?thesis by blast
  qed
qed

text \<open>How the merge of one field raises, and what it leaves.\<close>

lemma merge_fields_single_raises:
  "merge_fields t1 [(k, v)] = Inl (e, t') \<Longrightarrow>
     (\<exists>s. v = JStr s \<and> t' = t1
         \<and> (getitem t1 (JStr k) = Inl e
            \<or> (\<exists>old. getitem t1 (JStr k) = Inr old \<and> iadd old s = Inl e)))
   \<or> (\<exists>sub_src. v = JObj sub_src
         \<and> (getitem t1 (JStr k) = Inl e \<and> t' = t1
            \<or> (\<exists>sub sub'. getitem t1 (JStr k) = Inr sub
                  \<and> merge_fields sub sub_src = Inl (e, sub')
                  \<and> t' = store_item t1 (JStr k) sub')))"
  by (cases v) (auto split: sum.splits)

text \<open>The exceptions of \<open>merge_fields\<close>.\<close>

lemma getitem_key_errors: "getitem c (JStr k) = Inl e \<Longrightarrow> e = KeyError \<or> e = TypeError"
  by (cases c) (auto split: option.splits)

lemma iadd_errors: "iadd old s = Inl e \<Longrightarrow> e = TypeError"
  by (cases old) auto

lemma merge_fields_errors:
  "merge_fields target src = Inl (e, t') \<Longrightarrow> e = KeyError \<or> e = TypeError"
proof (induction target src arbitrary: e t' rule: merge_fields.induct)
  case (1 target)
  then show ?case by simp
next
  case (2 target key val rest)
  show ?case
  proof (cases val)
    case (JStr s)
    show ?thesis
    proof (cases "getitem target (JStr key)")
      case (Inl a)
      with "2.prems" JStr have "a = e" by simp
      with Inl show ?thesis by (simp add: getitem_key_errors)
    next
      case (Inr old)
      show ?thesis
      proof (cases "iadd old s")
        case (Inl a)
        with "2.prems" JStr Inr have "a = e" by simp
        with Inl iadd_errors show ?thesis by blast
      next
        case new: (Inr new)
        from "2.prems" JStr Inr new
        have "merge_fields (store_item target (JStr key) new) rest = Inl (e, t')" by simp
        from "2.IH"(5)[OF JStr Inr new this] show ?thesis .
      qed
    qed
  next
    case (JObj sub_src)
    show ?thesis
    proof (cases "getitem target (JStr key)")
      case (Inl a)
      with "2.prems" JObj have "a = e" by simp
      with Inl show ?thesis by (simp add: getitem_key_errors)
    next
      case (Inr sub)
      show ?thesis
      proof (cases "merge_fields sub sub_src")
        case (Inl a)
        obtain e' sub' where a: "a = (e', sub')" by (cases a)
        with "2.prems" JObj Inr Inl have "e' = e" by simp
        with Inl a have "merge_fields sub sub_src = Inl (e, sub')" by simp
        from "2.IH"(7)[OF JObj Inr this] show ?thesis .
      next
        case sub': (Inr sub')
        from "2.prems" JObj Inr sub'
        have "merge_fields (store_item target (JStr key) sub') rest = Inl (e, t')" by simp
        from "2.IH"(8)[OF JObj Inr sub' this] show ?thesis .
      qed
    qed
  qed (use 2 in auto)
qed
subsection \<open>The two steps of \<open>merge_chunk\<close>\<close>

lemma first_tool_call:
  assumes "getitem tc (JInt 0) = Inr first" and "pop_index first = Inr (idx, first')"
  shows "\<exists>e rest. tc = JList (JObj e # rest) \<and> first = JObj e \<and> dict_get e ''index'' = Some idx
           \<and> first' = JObj (dict_pop ''index'' e)
           \<and> store_item tc (JInt 0) first' = JList (first' # rest)"
proof (cases tc)
  case (JList xs)
  with assms(1) obtain x rest where xs: "xs = x # rest" and f: "first = x"
    by (cases xs) (auto simp: list_index_def split: option.splits if_splits)
  from assms(2) obtain e where e: "first = JObj e" by (cases first) auto
  with assms(2) have "dict_get e ''index'' = Some idx" "first' = JObj (dict_pop ''index'' e)"
    by (auto split: option.splits)
  with JList xs f e show ?thesis by (auto simp: list_index_def)
next
  case (JStr s)
  with assms show ?thesis by (auto split: option.splits)
next
  case (JObj d)
  with assms show ?thesis by simp
qed (use assms in simp_all)

text \<open>How a call of \<open>merge_chunk\<close> that returns came about.\<close>

lemma merge_chunk_returns:
  assumes "merge_chunk fr delta = Inr (fr', delta')"
  shows "\<exists>fr1. merge_fields (JObj fr) (dict_pop ''role'' delta) = Inr fr1 \<and>
           ((fr' = fr1 \<and> delta' = dict_pop ''role'' delta
             \<and> \<not> truthy (case dict_get (dict_pop ''role'' delta) ''tool_calls'' of
                           None \<Rightarrow> JNull | Some t \<Rightarrow> t))
            \<or> (\<exists>e rest idx calls entry entry'.
                 dict_get (dict_pop ''role'' delta) ''tool_calls'' = Some (JList (JObj e # rest))
                 \<and> dict_get e ''index'' = Some idx
                 \<and> delta' = dict_set (dict_pop ''role'' delta) ''tool_calls''
                              (JList (JObj (dict_pop ''index'' e) # rest))
                 \<and> getitem fr1 (JStr ''tool_calls'') = Inr calls
                 \<and> getitem calls idx = Inr entry
                 \<and> merge_fields entry (dict_pop ''index'' e) = Inr entry'
                 \<and> fr' = store_item fr1 (JStr ''tool_calls'') (store_item calls idx entry')))"
proof -
  let ?d1 = "dict_pop ''role'' delta"
  let ?tc = "case dict_get ?d1 ''tool_calls'' of None \<Rightarrow> JNull | Some t \<Rightarrow> t"
  from assms obtain fr1 where p1: "merge_fields (JObj fr) ?d1 = Inr fr1"
    by (auto simp: merge_chunk_def Let_def split: sum.splits)
  show ?thesis
  proof (cases "truthy ?tc")
    case False
    with assms p1 have "fr' = fr1" "delta' = ?d1"
      by (auto simp: merge_chunk_def Let_def)
    then show ?thesis using p1 False by blast
  next
    case True
    with assms p1 obtain n where n: "py_len ?tc = Inr n"
      by (auto simp: merge_chunk_def Let_def split: sum.splits)
    from True n have pos: "0 < n" by (cases ?tc) auto
    from assms p1 True n pos obtain first where f: "getitem ?tc (JInt 0) = Inr first"
      by (auto simp: merge_chunk_def Let_def split: sum.splits)
    from assms p1 True n pos f obtain idx first' where pi: "pop_index first = Inr (idx, first')"
      by (auto simp: merge_chunk_def Let_def split: sum.splits)
    from first_tool_call[OF f pi] obtain e rest where
      tc: "?tc = JList (JObj e # rest)" and fe: "first = JObj e" and
      ix: "dict_get e ''index'' = Some idx" and f': "first' = JObj (dict_pop ''index'' e)" and
      st: "store_item ?tc (JInt 0) first' = JList (first' # rest)"
      by blast
    from tc have dg: "dict_get ?d1 ''tool_calls'' = Some (JList (JObj e # rest))"
      by (auto split: option.splits)
    let ?d2 = "dict_set ?d1 ''tool_calls'' (JList (JObj (dict_pop ''index'' e) # rest))"
    from assms p1 True n pos f pi st f' obtain calls where
      c: "getitem fr1 (JStr ''tool_calls'') = Inr calls"
      by (auto simp: merge_chunk_def Let_def split: sum.splits)
    from assms p1 True n pos f pi st f' c obtain entry where
      en: "getitem calls idx = Inr entry"
      by (auto simp: merge_chunk_def Let_def split: sum.splits)
    from assms p1 True n pos f pi st f' c en obtain entry' where
      m: "merge_fields entry (dict_pop ''index'' e) = Inr entry'"
      by (auto simp: merge_chunk_def Let_def split: sum.splits)
    from assms p1 True n pos f pi st f' c en m have
      "fr' = store_item fr1 (JStr ''tool_calls'') (store_item calls idx entry')" "delta' = ?d2"
      by (auto simp: merge_chunk_def Let_def split: sum.splits)
    with p1 dg ix c en m show ?thesis by blast
  qed
qed

lemma falsy_or_not_merged:
  assumes "distinct (map fst d)"
    and "\<not> truthy (case dict_get d k of None \<Rightarrow> JNull | Some t \<Rightarrow> t)"
  shows "\<forall>v. (k, v) \<in> set d \<longrightarrow> \<not> merged_kind v \<or> \<not> truthy v"
proof (intro allI impI)
  fix v assume "(k, v) \<in> set d"
  with assms(1) have "dict_get d k = Some v" by (simp add: dict_get_member)
  with assms(2) show "\<not> merged_kind v \<or> \<not> truthy v" by simp
qed

lemma list_not_merged:
  assumes "distinct (map fst d)" and "dict_get d k = Some (JList xs)"
  shows "\<forall>v. (k, v) \<in> set d \<longrightarrow> \<not> merged_kind v"
proof (intro allI impI)
  fix v assume "(k, v) \<in> set d"
  with assms(1) have "dict_get d k = Some v" by (simp add: dict_get_member)
  with assms(2) show "\<not> merged_kind v" by simp
qed

lemma length_store_item_list:
  "\<exists>ys. store_item (JList xs) idx v = JList ys \<and> length ys = length xs"
  by (auto split: option.splits)

text \<open>The second step, once the first has returned and the delta carries a tool call.\<close>

lemma merge_chunk_tool_call:
  assumes p1: "merge_fields (JObj fr) (dict_pop ''role'' delta) = Inr fr1"
    and tc: "dict_get (dict_pop ''role'' delta) ''tool_calls'' = Some (JList (JObj e # rest))"
    and ix: "dict_get e ''index'' = Some idx"
  shows "merge_chunk fr delta =
     (case getitem fr1 (JStr ''tool_calls'') of
        Inl err \<Rightarrow>
          Inl (err, fr1,
               dict_set (dict_pop ''role'' delta) ''tool_calls''
                 (JList (JObj (dict_pop ''index'' e) # rest)))
      | Inr calls \<Rightarrow>
          (case getitem calls idx of
             Inl err \<Rightarrow>
               Inl (err, fr1,
                    dict_set (dict_pop ''role'' delta) ''tool_calls''
                      (JList (JObj (dict_pop ''index'' e) # rest)))
           | Inr entry \<Rightarrow>
               (case merge_fields entry (dict_pop ''index'' e) of
                  Inl (err, entry') \<Rightarrow>
                    Inl (err, store_item fr1 (JStr ''tool_calls'') (store_item calls idx entry'),
                         dict_set (dict_pop ''role'' delta) ''tool_calls''
                           (JList (JObj (dict_pop ''index'' e) # rest)))
                | Inr entry' \<Rightarrow>
                    Inr (store_item fr1 (JStr ''tool_calls'') (store_item calls idx entry'),
                         dict_set (dict_pop ''role'' delta) ''tool_calls''
                           (JList (JObj (dict_pop ''index'' e) # rest))))))"
  using assms by (simp add: merge_chunk_def Let_def list_index_def cong: sum.case_cong)

lemma getitem_list:
  "getitem (JList xs) idx = Inr entry \<Longrightarrow>
   \<exists>i p. as_index idx = Some i \<and> list_index (length xs) i = Some p \<and> p < length xs
         \<and> entry = xs ! p \<and> (\<forall>v. store_item (JList xs) idx v = JList (xs[p := v]))"
  by (auto simp: list_index_less split: option.splits)

text \<open>
  The first step leaves the accumulator's \<open>tool_calls\<close> alone when the delta's
  \<open>tool_calls\<close> is a list.
\<close>

lemma tool_calls_untouched:
  assumes dist: "distinct (map fst delta)"
    and tc: "dict_get delta ''tool_calls'' = Some (JList xs)"
    and p1: "merge_fields (JObj fr) (dict_pop ''role'' delta) = Inr fr1"
  shows "getitem fr1 (JStr ''tool_calls'') = getitem (JObj fr) (JStr ''tool_calls'')"
proof -
  from dist have d1: "distinct (map fst (dict_pop ''role'' delta))" by (rule distinct_dict_pop)
  from tc have "dict_get (dict_pop ''role'' delta) ''tool_calls'' = Some (JList xs)"
    by (simp add: dict_get_dict_pop)
  from merge_fields_frame[OF list_not_merged[OF d1 this], of "JObj fr"] p1
  show ?thesis by (simp add: target_after_def)
qed

text \<open>How a call of \<open>merge_chunk\<close> that raises came about, and what it leaves.\<close>

lemma merge_chunk_raises:
  assumes "merge_chunk fr delta = Inl (e, fr', delta')"
  shows "(merge_fields (JObj fr) (dict_pop ''role'' delta) = Inl (e, fr')
          \<and> delta' = dict_pop ''role'' delta)
     \<or> (\<exists>fr1. merge_fields (JObj fr) (dict_pop ''role'' delta) = Inr fr1
           \<and> ((fr' = fr1 \<and> delta' = dict_pop ''role'' delta
                \<and> (\<exists>tc. dict_get (dict_pop ''role'' delta) ''tool_calls'' = Some tc \<and> truthy tc
                      \<and> (py_len tc = Inl e \<or> getitem tc (JInt 0) = Inl e
                         \<or> (\<exists>first. getitem tc (JInt 0) = Inr first \<and> pop_index first = Inl e))))
              \<or> (\<exists>en rest idx.
                    dict_get (dict_pop ''role'' delta) ''tool_calls'' = Some (JList (JObj en # rest))
                  \<and> dict_get en ''index'' = Some idx
                  \<and> delta' = dict_set (dict_pop ''role'' delta) ''tool_calls''
                               (JList (JObj (dict_pop ''index'' en) # rest))
                  \<and> ((fr' = fr1 \<and> getitem fr1 (JStr ''tool_calls'') = Inl e)
                     \<or> (\<exists>calls. getitem fr1 (JStr ''tool_calls'') = Inr calls
                           \<and> ((fr' = fr1 \<and> getitem calls idx = Inl e)
                              \<or> (\<exists>entry entry'. getitem calls idx = Inr entry
                                    \<and> merge_fields entry (dict_pop ''index'' en) = Inl (e, entry')
                                    \<and> fr' = store_item fr1 (JStr ''tool_calls'')
                                               (store_item calls idx entry'))))))))"
  (is "?first \<or> (\<exists>fr1. ?p1 fr1 \<and> (?early fr1 \<or> ?late fr1))")
proof (cases "merge_fields (JObj fr) (dict_pop ''role'' delta)")
  case (Inl a)
  with assms show ?thesis by (cases a) (simp add: merge_chunk_def)
next
  case p1: (Inr fr1)
  let ?d1 = "dict_pop ''role'' delta"
  let ?tc = "case dict_get ?d1 ''tool_calls'' of None \<Rightarrow> JNull | Some t \<Rightarrow> t"
  from assms p1 have tr: "truthy ?tc"
    by (auto simp: merge_chunk_def Let_def split: if_splits)
  then obtain tc where dg: "dict_get ?d1 ''tool_calls'' = Some tc" and tc: "?tc = tc"
    by (cases "dict_get ?d1 ''tool_calls''") auto
  from tr tc have trtc: "truthy tc" by simp
  have early: "?early fr1"
    if "fr' = fr1" "delta' = ?d1"
       "py_len tc = Inl e \<or> getitem tc (JInt 0) = Inl e
          \<or> (\<exists>first. getitem tc (JInt 0) = Inr first \<and> pop_index first = Inl e)"
    using that dg trtc by blast
  have "?early fr1 \<or> ?late fr1"
  proof (cases "py_len tc")
    case (Inl a)
    with assms p1 tr tc have "a = e" "fr' = fr1" "delta' = ?d1"
      by (simp_all add: merge_chunk_def)
    with Inl early show ?thesis by blast
  next
    case n: (Inr n)
    from trtc n have pos: "0 < n" by (cases tc) auto
    show ?thesis
    proof (cases "getitem tc (JInt 0)")
      case (Inl a)
      with assms p1 tr tc n pos have "a = e" "fr' = fr1" "delta' = ?d1"
        by (simp_all add: merge_chunk_def)
      with Inl early show ?thesis by blast
    next
      case f: (Inr first)
      show ?thesis
      proof (cases "pop_index first")
        case (Inl a)
        with assms p1 tr tc n pos f have "a = e" "fr' = fr1" "delta' = ?d1"
          by (simp_all add: merge_chunk_def)
        with Inl f early show ?thesis by blast
      next
        case (Inr a)
        then obtain idx first' where pi: "pop_index first = Inr (idx, first')" by (cases a) simp
        from first_tool_call[OF f pi] obtain en rest where
          tcl: "tc = JList (JObj en # rest)" and ix: "dict_get en ''index'' = Some idx"
          by blast
        from dg tcl have dgl: "dict_get ?d1 ''tool_calls'' = Some (JList (JObj en # rest))"
          by simp
        let ?d2 = "dict_set ?d1 ''tool_calls'' (JList (JObj (dict_pop ''index'' en) # rest))"
        note call = merge_chunk_tool_call[OF p1 dgl ix]
        have d2: "delta' = ?d2"
          using assms by (simp add: call split: sum.splits prod.splits)
        have "(fr' = fr1 \<and> getitem fr1 (JStr ''tool_calls'') = Inl e)
                     \<or> (\<exists>calls. getitem fr1 (JStr ''tool_calls'') = Inr calls
                           \<and> ((fr' = fr1 \<and> getitem calls idx = Inl e)
                              \<or> (\<exists>entry entry'. getitem calls idx = Inr entry
                                    \<and> merge_fields entry (dict_pop ''index'' en) = Inl (e, entry')
                                    \<and> fr' = store_item fr1 (JStr ''tool_calls'')
                                               (store_item calls idx entry'))))"
        proof (cases "getitem fr1 (JStr ''tool_calls'')")
          case (Inl a)
          with assms show ?thesis by (simp add: call)
        next
          case c: (Inr calls)
          show ?thesis
          proof (cases "getitem calls idx")
            case (Inl a)
            with assms c show ?thesis by (simp add: call)
          next
            case en: (Inr entry)
            from assms c en obtain entry' where
              "merge_fields entry (dict_pop ''index'' en) = Inl (e, entry')"
              "fr' = store_item fr1 (JStr ''tool_calls'') (store_item calls idx entry')"
              by (auto simp: call split: sum.splits prod.splits)
            with c en show ?thesis by simp
          qed
        qed
        with dgl ix d2 have "?late fr1" by blast
        then show ?thesis ..
      qed
    qed
  qed
  with p1 show ?thesis by blast
qed

text \<open>The exceptions of \<open>merge_chunk\<close>.\<close>

lemma py_len_errors: "py_len c = Inl e \<Longrightarrow> e = TypeError"
  by (cases c) auto

lemma getitem_errors:
  "getitem c key = Inl e \<Longrightarrow> e = KeyError \<or> e = IndexError \<or> e = TypeError"
  by (cases c) (auto split: option.splits json.splits if_splits)

lemma pop_index_errors:
  "pop_index c = Inl e \<Longrightarrow> e = KeyError \<or> e = TypeError \<or> e = AttributeError"
  by (cases c) (auto split: option.splits)

lemma merge_chunk_errors:
  assumes "merge_chunk fr delta = Inl (e, fr', delta')"
  shows "e = KeyError \<or> e = IndexError \<or> e = TypeError \<or> e = AttributeError"
  using merge_chunk_raises[OF assms]
  by (elim disjE exE conjE)
     (use merge_fields_errors py_len_errors getitem_errors pop_index_errors in blast)+
subsection \<open>String fields\<close>




subsection \<open>No key and no tool call is added\<close>

text \<open>
  C10. When \<open>merge_chunk\<close> returns (the delta being a dictionary: its keys are
  distinct), the accumulator keeps its keys: it has an object exactly where it had one,
  with the same keys in the same order, at every depth, also inside the tool calls; at the
  top it is an object with the keys it had; and when its \<open>tool_calls\<close> was a list, it
  still is a list of the same length. (A list that the accumulator holds at a key where
  the delta holds a string is extended by the characters of the string, a rewrite of the
  value at that key; a call that does this to \<open>tool_calls\<close> raises.)
\<close>

theorem merge_keeps_keys:
  assumes ret: "merge_chunk fr delta = Inr (fr', delta')"
    and dist: "distinct (map fst delta)"
  shows "keys_kept (JObj fr) fr'
         \<and> (\<exists>d'. fr' = JObj d' \<and> map fst d' = map fst fr)
         \<and> (\<forall>tcs. dict_get fr ''tool_calls'' = Some (JList tcs) \<longrightarrow>
               (\<exists>tcs'. getitem fr' (JStr ''tool_calls'') = Inr (JList tcs')
                        \<and> length tcs' = length tcs))"
proof -
  let ?d1 = "dict_pop ''role'' delta"
  let ?tc = "case dict_get ?d1 ''tool_calls'' of None \<Rightarrow> JNull | Some t \<Rightarrow> t"
  from dist have d1: "distinct (map fst ?d1)" by (rule distinct_dict_pop)
  from merge_chunk_returns[OF ret] obtain fr1 where
    p1: "merge_fields (JObj fr) ?d1 = Inr fr1" and
    alt: "(fr' = fr1 \<and> delta' = ?d1 \<and> \<not> truthy ?tc)
            \<or> (\<exists>e rest idx calls entry entry'.
                 dict_get ?d1 ''tool_calls'' = Some (JList (JObj e # rest))
                 \<and> dict_get e ''index'' = Some idx
                 \<and> delta' = dict_set ?d1 ''tool_calls'' (JList (JObj (dict_pop ''index'' e) # rest))
                 \<and> getitem fr1 (JStr ''tool_calls'') = Inr calls
                 \<and> getitem calls idx = Inr entry
                 \<and> merge_fields entry (dict_pop ''index'' e) = Inr entry'
                 \<and> fr' = store_item fr1 (JStr ''tool_calls'') (store_item calls idx entry'))"
    by blast
  from merge_fields_keys_kept[of "JObj fr" ?d1] p1 have k1: "keys_kept (JObj fr) fr1"
    by (simp add: target_after_def)
  from alt have "keys_kept (JObj fr) fr'
         \<and> (\<forall>tcs. dict_get fr ''tool_calls'' = Some (JList tcs) \<longrightarrow>
               (\<exists>tcs'. getitem fr' (JStr ''tool_calls'') = Inr (JList tcs')
                        \<and> length tcs' = length tcs))"
  proof
    assume a: "fr' = fr1 \<and> delta' = ?d1 \<and> \<not> truthy ?tc"
    from falsy_or_not_merged[OF d1] a
    have "\<forall>v. (''tool_calls'', v) \<in> set ?d1 \<longrightarrow> \<not> merged_kind v \<or> \<not> truthy v" by blast
    from merge_fields_frame_empty[OF this, of "JObj fr"] p1
    have "getitem fr1 (JStr ''tool_calls'') = getitem (JObj fr) (JStr ''tool_calls'')"
      by (simp add: target_after_def)
    with a k1 show ?thesis by auto
  next
    assume "\<exists>e rest idx calls entry entry'.
                 dict_get ?d1 ''tool_calls'' = Some (JList (JObj e # rest))
                 \<and> dict_get e ''index'' = Some idx
                 \<and> delta' = dict_set ?d1 ''tool_calls'' (JList (JObj (dict_pop ''index'' e) # rest))
                 \<and> getitem fr1 (JStr ''tool_calls'') = Inr calls
                 \<and> getitem calls idx = Inr entry
                 \<and> merge_fields entry (dict_pop ''index'' e) = Inr entry'
                 \<and> fr' = store_item fr1 (JStr ''tool_calls'') (store_item calls idx entry')"
    then obtain e rest idx calls entry entry' where
      tc: "dict_get ?d1 ''tool_calls'' = Some (JList (JObj e # rest))" and
      c: "getitem fr1 (JStr ''tool_calls'') = Inr calls" and
      en: "getitem calls idx = Inr entry" and
      m: "merge_fields entry (dict_pop ''index'' e) = Inr entry'" and
      fr': "fr' = store_item fr1 (JStr ''tool_calls'') (store_item calls idx entry')"
      by blast
    from merge_fields_keys_kept[of entry "dict_pop ''index'' e"] m
    have "keys_kept entry entry'" by (simp add: target_after_def)
    from keys_kept_store_item[OF en this] have "keys_kept calls (store_item calls idx entry')" .
    from keys_kept_store_item[OF c this] fr' have "keys_kept fr1 fr'" by simp
    with k1 have kk: "keys_kept (JObj fr) fr'" by (rule keys_kept_trans)
    from merge_fields_frame[OF list_not_merged[OF d1 tc], of "JObj fr"] p1
    have same: "getitem fr1 (JStr ''tool_calls'') = getitem (JObj fr) (JStr ''tool_calls'')"
      by (simp add: target_after_def)
    have "\<forall>tcs. dict_get fr ''tool_calls'' = Some (JList tcs) \<longrightarrow>
               (\<exists>tcs'. getitem fr' (JStr ''tool_calls'') = Inr (JList tcs')
                        \<and> length tcs' = length tcs)"
    proof (intro allI impI)
      fix tcs assume "dict_get fr ''tool_calls'' = Some (JList tcs)"
      with same c have calls: "calls = JList tcs" by simp
      from length_store_item_list[of tcs idx entry'] obtain ys where
        ys: "store_item (JList tcs) idx entry' = JList ys" "length ys = length tcs" by blast
      from getitem_store_same[OF c, of "JList ys"] fr' calls ys
      show "\<exists>tcs'. getitem fr' (JStr ''tool_calls'') = Inr (JList tcs') \<and> length tcs' = length tcs"
        by simp
    qed
    with kk show ?thesis by simp
  qed
  moreover from this obtain d' where "fr' = JObj d'" "map fst d' = map fst fr"
    by (cases fr') (auto simp: keys_kept_items_keys)
  ultimately show ?thesis by simp
qed

theorem merge_keeps_keys_witness:
  "merge_chunk
     [(''content'', JStr ''Hell''),
      (''tool_calls'', JList [JObj [(''id'', JStr []),
                                    (''function'', JObj [(''name'', JStr []),
                                                         (''arguments'', JStr [])])]])]
     [(''role'', JStr ''assistant''), (''content'', JStr ''o''),
      (''tool_calls'', JList [JObj [(''index'', JInt 0), (''id'', JStr ''call_1''),
                                    (''function'', JObj [(''arguments'', JStr ''{'')])]])]
   = Inr (JObj [(''content'', JStr ''Hello''),
                (''tool_calls'', JList [JObj [(''id'', JStr ''call_1''),
                                              (''function'', JObj [(''name'', JStr []),
                                                                   (''arguments'', JStr ''{'')])]])],
          [(''content'', JStr ''o''),
           (''tool_calls'', JList [JObj [(''id'', JStr ''call_1''),
                                         (''function'', JObj [(''arguments'', JStr ''{'')])]])])
   \<and> distinct (map fst
     [(''role'', JStr ''assistant''), (''content'', JStr ''o''),
      (''tool_calls'', JList [JObj [(''index'', JInt 0), (''id'', JStr ''call_1''),
                                    (''function'', JObj [(''arguments'', JStr ''{'')])]])])
   \<and> keys_kept
        (JObj [(''content'', JStr ''Hell''),
               (''tool_calls'', JList [JObj [(''id'', JStr []),
                                             (''function'', JObj [(''name'', JStr []),
                                                                  (''arguments'', JStr [])])]])])
        (JObj [(''content'', JStr ''Hello''),
               (''tool_calls'', JList [JObj [(''id'', JStr ''call_1''),
                                             (''function'', JObj [(''name'', JStr []),
                                                                  (''arguments'', JStr ''{'')])]])])"
  (is "?ret \<and> ?dist \<and> ?kept")
proof -
  have h1: ?ret
    by (simp add: merge_chunk_def dict_pop_def dict_get_def list_index_def)
  have h2: ?dist by simp
  from merge_keeps_keys [OF h1 h2] have ?kept by (rule conjunct1)
  with h1 h2 show ?thesis by (intro conjI)
qed

subsection \<open>What happens to the delta\<close>

text \<open>
  The delta that a call leaves, whether it returned or raised, is one of two: the delta
  without \<open>role\<close>, or that with \<open>index\<close> removed from the first tool call.
\<close>

lemma delta_after_merge_chunk:
  "delta_after (merge_chunk fr delta) = dict_pop ''role'' delta
   \<or> (\<exists>e rest idx.
         dict_get (dict_pop ''role'' delta) ''tool_calls'' = Some (JList (JObj e # rest))
         \<and> dict_get e ''index'' = Some idx
         \<and> delta_after (merge_chunk fr delta)
             = dict_set (dict_pop ''role'' delta) ''tool_calls''
                 (JList (JObj (dict_pop ''index'' e) # rest)))"
proof -
  let ?d1 = "dict_pop ''role'' delta"
  let ?tc = "case dict_get ?d1 ''tool_calls'' of None \<Rightarrow> JNull | Some t \<Rightarrow> t"
  show ?thesis
  proof (cases "merge_fields (JObj fr) ?d1")
    case (Inl a)
    then show ?thesis by (cases a) (simp add: merge_chunk_def delta_after_def)
  next
    case p1: (Inr fr1)
    show ?thesis
    proof (cases "truthy ?tc")
      case False
      with p1 show ?thesis by (simp add: merge_chunk_def delta_after_def)
    next
      case True
      show ?thesis
      proof (cases "py_len ?tc")
        case (Inl a)
        with p1 True show ?thesis by (simp add: merge_chunk_def delta_after_def)
      next
        case n: (Inr n)
        from True n have pos: "0 < n" by (cases ?tc) auto
        show ?thesis
        proof (cases "getitem ?tc (JInt 0)")
          case (Inl a)
          with p1 True n pos show ?thesis by (simp add: merge_chunk_def delta_after_def)
        next
          case f: (Inr first)
          show ?thesis
          proof (cases "pop_index first")
            case (Inl a)
            with p1 True n pos f show ?thesis by (simp add: merge_chunk_def delta_after_def)
          next
            case (Inr a)
            then obtain idx first' where pi: "pop_index first = Inr (idx, first')" by (cases a) simp
            from first_tool_call[OF f pi] obtain e rest where
              tc: "?tc = JList (JObj e # rest)" and ix: "dict_get e ''index'' = Some idx"
              by blast
            from tc have dg: "dict_get ?d1 ''tool_calls'' = Some (JList (JObj e # rest))"
              by (auto split: option.splits)
            have "delta_after (merge_chunk fr delta)
                    = dict_set ?d1 ''tool_calls'' (JList (JObj (dict_pop ''index'' e) # rest))"
              by (simp add: merge_chunk_tool_call[OF p1 dg ix] delta_after_def
                  split: sum.splits prod.splits)
            with dg ix show ?thesis by blast
          qed
        qed
      qed
    qed
  qed
qed

text \<open>
  C5, as the code has it. \<open>merge_chunk\<close> mutates the delta too, in two places and no
  other, and the delta it leaves, whether it returns or raises, is determined:
  \<^item> the key \<open>role\<close> is always removed: the delta left has no \<open>role\<close>;
  \<^item> when the first step (the merge of the delta without \<open>role\<close>) raises, the delta left
    is the delta without \<open>role\<close>;
  \<^item> when the first step returns and the delta's \<open>tool_calls\<close> is a list whose first
    entry is an object with an \<open>index\<close>, that key is removed from that entry: the delta
    left is the delta without \<open>role\<close> whose first tool call has lost \<open>index\<close>, every
    other item and every later tool call as it was;
  \<^item> when the first step returns and the delta's \<open>tool_calls\<close> is not such a list, the
    delta left is the delta without \<open>role\<close>.
\<close>

theorem delta_loses_role_and_index:
  "dict_get (delta_after (merge_chunk fr delta)) ''role'' = None
   \<and> (merge_fields (JObj fr) (dict_pop ''role'' delta) = Inl (err, t) \<longrightarrow>
        delta_after (merge_chunk fr delta) = dict_pop ''role'' delta)
   \<and> (merge_fields (JObj fr) (dict_pop ''role'' delta) = Inr fr1
        \<and> dict_get (dict_pop ''role'' delta) ''tool_calls'' = Some (JList (JObj e # rest))
        \<and> dict_get e ''index'' = Some idx \<longrightarrow>
        delta_after (merge_chunk fr delta)
          = dict_set (dict_pop ''role'' delta) ''tool_calls''
              (JList (JObj (dict_pop ''index'' e) # rest))
        \<and> dict_get (delta_after (merge_chunk fr delta)) ''tool_calls''
            = Some (JList (JObj (dict_pop ''index'' e) # rest))
        \<and> dict_get (dict_pop ''index'' e) ''index'' = None)
   \<and> (merge_fields (JObj fr) (dict_pop ''role'' delta) = Inr fr1
        \<and> \<not> (\<exists>e rest idx. dict_get (dict_pop ''role'' delta) ''tool_calls''
                                 = Some (JList (JObj e # rest))
                               \<and> dict_get e ''index'' = Some idx) \<longrightarrow>
        delta_after (merge_chunk fr delta) = dict_pop ''role'' delta)"
  (is "?role \<and> (?raises \<longrightarrow> ?a) \<and> (?call \<longrightarrow> ?b) \<and> (?nocall \<longrightarrow> ?c)")
proof -
  from delta_after_merge_chunk[of fr delta] have r: ?role
    by (auto simp: dict_get_dict_pop dict_get_dict_set)
  have a: "?raises \<longrightarrow> ?a"
    by (simp add: merge_chunk_def delta_after_def)
  have b: "?call \<longrightarrow> ?b"
  proof
    assume c: ?call
    then have p1: "merge_fields (JObj fr) (dict_pop ''role'' delta) = Inr fr1"
      and dg: "dict_get (dict_pop ''role'' delta) ''tool_calls'' = Some (JList (JObj e # rest))"
      and ix: "dict_get e ''index'' = Some idx"
      by simp_all
    have eq: "delta_after (merge_chunk fr delta)
            = dict_set (dict_pop ''role'' delta) ''tool_calls''
                (JList (JObj (dict_pop ''index'' e) # rest))"
      by (simp add: merge_chunk_tool_call[OF p1 dg ix] delta_after_def
          split: sum.splits prod.splits)
    show ?b
      by (simp only: eq) (simp add: dict_get_dict_set dict_get_dict_pop)
  qed
  have c: "?nocall \<longrightarrow> ?c"
  proof
    assume n: ?nocall
    from delta_after_merge_chunk[of fr delta] show ?c
    proof
      assume "delta_after (merge_chunk fr delta) = dict_pop ''role'' delta"
      then show ?thesis .
    next
      assume "\<exists>e rest idx.
           dict_get (dict_pop ''role'' delta) ''tool_calls'' = Some (JList (JObj e # rest))
           \<and> dict_get e ''index'' = Some idx
           \<and> delta_after (merge_chunk fr delta)
               = dict_set (dict_pop ''role'' delta) ''tool_calls''
                   (JList (JObj (dict_pop ''index'' e) # rest))"
      then obtain e rest idx where
        "dict_get (dict_pop ''role'' delta) ''tool_calls'' = Some (JList (JObj e # rest))"
        "dict_get e ''index'' = Some idx"
        by (elim exE conjE)
      with n show ?thesis by blast
    qed
  qed
  show ?thesis by (intro conjI r a b c)
qed

text \<open>
  The three cases at work. Merging \<open>{role: "assistant", missing: "x"}\<close> into
  \<open>{content: "H"}\<close> raises at \<open>missing\<close>; merging a tool call with \<open>index: 0\<close> removes
  the \<open>index\<close>; merging \<open>{role: "assistant", content: "o"}\<close> has no tool call.
\<close>

theorem delta_loses_role_and_index_witness:
  "merge_fields (JObj [(''content'', JStr ''H'')])
      (dict_pop ''role'' [(''role'', JStr ''assistant''), (''missing'', JStr ''x'')])
     = Inl (KeyError, JObj [(''content'', JStr ''H'')])
   \<and> delta_after (merge_chunk [(''content'', JStr ''H'')]
                     [(''role'', JStr ''assistant''), (''missing'', JStr ''x'')])
       = dict_pop ''role'' [(''role'', JStr ''assistant''), (''missing'', JStr ''x'')]
   \<and> (merge_fields (JObj [(''tool_calls'', JList [JObj [(''id'', JStr ''a'')]])])
        (dict_pop ''role''
           [(''role'', JStr ''assistant''),
            (''tool_calls'', JList [JObj [(''index'', JInt 0), (''id'', JStr ''b'')]])])
       = Inr (JObj [(''tool_calls'', JList [JObj [(''id'', JStr ''a'')]])])
      \<and> dict_get (dict_pop ''role''
           [(''role'', JStr ''assistant''),
            (''tool_calls'', JList [JObj [(''index'', JInt 0), (''id'', JStr ''b'')]])])
          ''tool_calls''
         = Some (JList (JObj [(''index'', JInt 0), (''id'', JStr ''b'')] # []))
      \<and> dict_get [(''index'', JInt 0), (''id'', JStr ''b'')] ''index'' = Some (JInt 0))
   \<and> (delta_after (merge_chunk [(''tool_calls'', JList [JObj [(''id'', JStr ''a'')]])]
           [(''role'', JStr ''assistant''),
            (''tool_calls'', JList [JObj [(''index'', JInt 0), (''id'', JStr ''b'')]])])
        = dict_set (dict_pop ''role''
             [(''role'', JStr ''assistant''),
              (''tool_calls'', JList [JObj [(''index'', JInt 0), (''id'', JStr ''b'')]])])
            ''tool_calls''
            (JList (JObj (dict_pop ''index'' [(''index'', JInt 0), (''id'', JStr ''b'')]) # []))
      \<and> dict_get (delta_after (merge_chunk [(''tool_calls'', JList [JObj [(''id'', JStr ''a'')]])]
           [(''role'', JStr ''assistant''),
            (''tool_calls'', JList [JObj [(''index'', JInt 0), (''id'', JStr ''b'')]])]))
          ''tool_calls''
         = Some (JList (JObj (dict_pop ''index'' [(''index'', JInt 0), (''id'', JStr ''b'')]) # []))
      \<and> dict_get (dict_pop ''index'' [(''index'', JInt 0), (''id'', JStr ''b'')]) ''index'' = None)
   \<and> (merge_fields (JObj [(''content'', JStr ''Hell'')])
        (dict_pop ''role'' [(''role'', JStr ''assistant''), (''content'', JStr ''o'')])
       = Inr (JObj [(''content'', JStr ''Hello'')])
      \<and> \<not> (\<exists>e rest idx. dict_get (dict_pop ''role''
                                  [(''role'', JStr ''assistant''), (''content'', JStr ''o'')])
                               ''tool_calls''
                               = Some (JList (JObj e # rest))
                             \<and> dict_get e ''index'' = Some idx))
   \<and> delta_after (merge_chunk [(''content'', JStr ''Hell'')]
                     [(''role'', JStr ''assistant''), (''content'', JStr ''o'')])
       = dict_pop ''role'' [(''role'', JStr ''assistant''), (''content'', JStr ''o'')]
   \<and> dict_pop ''role'' [(''role'', JStr ''assistant''), (''content'', JStr ''o'')]
       = [(''content'', JStr ''o'')]
   \<and> dict_set (dict_pop ''role''
             [(''role'', JStr ''assistant''),
              (''tool_calls'', JList [JObj [(''index'', JInt 0), (''id'', JStr ''b'')]])])
            ''tool_calls''
            (JList (JObj (dict_pop ''index'' [(''index'', JInt 0), (''id'', JStr ''b'')]) # []))
       = [(''tool_calls'', JList [JObj [(''id'', JStr ''b'')]])]"
  (is "?h1 \<and> ?c1 \<and> ?h2 \<and> ?c2 \<and> ?h3 \<and> ?c3 \<and> ?v1 \<and> ?v2")
proof -
  have h1: ?h1 by (simp add: dict_pop_def dict_get_def)
  have h2: ?h2 by (simp add: dict_pop_def dict_get_def)
  have h3: ?h3 by (simp add: dict_pop_def dict_get_def)
  have v1: ?v1 by (simp add: dict_pop_def)
  have v2: ?v2 by (simp add: dict_pop_def)
  note t1 = delta_loses_role_and_index[THEN conjunct2, THEN conjunct1]
  note t2 = delta_loses_role_and_index[THEN conjunct2, THEN conjunct2, THEN conjunct1]
  note t3 = delta_loses_role_and_index[THEN conjunct2, THEN conjunct2, THEN conjunct2]
  from t1 h1 have c1: ?c1 by (rule mp)
  from t2 h2 have c2: ?c2 by (rule mp)
  from t3 h3 have c3: ?c3 by (rule mp)
  show ?thesis by (intro conjI h1 c1 h2 c2 h3 c3 v1 v2)
qed

text \<open>
  Against C5 as stated: after merging \<open>{role: "assistant", content: "o"}\<close> the delta is
  \<open>{content: "o"}\<close>, and after merging a tool call with \<open>index: 0\<close> the delta's tool
  call has no \<open>index\<close>. The delta is not left unchanged.
\<close>

theorem delta_mutated_counterexample:
  "merge_chunk [(''content'', JStr ''Hell'')] [(''role'', JStr ''assistant''), (''content'', JStr ''o'')]
     = Inr (JObj [(''content'', JStr ''Hello'')], [(''content'', JStr ''o'')])
   \<and> merge_chunk [(''tool_calls'', JList [JObj [(''id'', JStr ''a'')]])]
                 [(''tool_calls'', JList [JObj [(''index'', JInt 0), (''id'', JStr ''b'')]])]
     = Inr (JObj [(''tool_calls'', JList [JObj [(''id'', JStr ''ab'')]])],
            [(''tool_calls'', JList [JObj [(''id'', JStr ''b'')]])])
   \<and> delta_after (merge_chunk [(''content'', JStr ''Hell'')]
                     [(''role'', JStr ''assistant''), (''content'', JStr ''o'')])
     \<noteq> [(''role'', JStr ''assistant''), (''content'', JStr ''o'')]
   \<and> delta_after (merge_chunk [(''tool_calls'', JList [JObj [(''id'', JStr ''a'')]])]
                     [(''tool_calls'', JList [JObj [(''index'', JInt 0), (''id'', JStr ''b'')]])])
     \<noteq> [(''tool_calls'', JList [JObj [(''index'', JInt 0), (''id'', JStr ''b'')]])]"
  by (simp add: merge_chunk_def delta_after_def dict_pop_def dict_get_def list_index_def)

subsection \<open>A tool call whose index is out of range\<close>

text \<open>
  C2, as the code has it. Take a delta (a dictionary: its keys are distinct) whose
  \<open>tool_calls\<close> is a list with a first entry of integer index \<open>i\<close>, and an accumulator
  whose \<open>tool_calls\<close> is a list of \<open>n\<close> entries; let the delta's own fields merge without
  raising. Then that first step leaves the list as it is, and:
  if \<open>n \<le> i\<close> or \<open>i < -n\<close>, the call raises IndexError, an out-of-bounds fault, with the
  list not extended; if \<open>-n \<le> i < 0\<close>, the index is no error: it counts from the end,
  and the entry is merged into position \<open>n + i\<close>. There is no MergeError in the code.
\<close>

theorem index_out_of_range_raises:
  assumes dist: "distinct (map fst delta)"
    and tc: "dict_get delta ''tool_calls'' = Some (JList (JObj e # rest))"
    and ix: "dict_get e ''index'' = Some (JInt i)"
    and acc: "dict_get fr ''tool_calls'' = Some (JList tcs)"
    and p1: "merge_fields (JObj fr) (dict_pop ''role'' delta) = Inr fr1"
  shows "getitem fr1 (JStr ''tool_calls'') = Inr (JList tcs)
     \<and> (int (length tcs) \<le> i \<or> i < - int (length tcs) \<longrightarrow>
          merge_chunk fr delta =
            Inl (IndexError, fr1,
                 dict_set (dict_pop ''role'' delta) ''tool_calls''
                   (JList (JObj (dict_pop ''index'' e) # rest))))
     \<and> (- int (length tcs) \<le> i \<and> i < 0 \<longrightarrow>
          merge_chunk fr delta =
            (case merge_fields (tcs ! nat (int (length tcs) + i)) (dict_pop ''index'' e) of
               Inl (err, entry') \<Rightarrow>
                 Inl (err,
                      store_item fr1 (JStr ''tool_calls'')
                        (JList (tcs[nat (int (length tcs) + i) := entry'])),
                      dict_set (dict_pop ''role'' delta) ''tool_calls''
                        (JList (JObj (dict_pop ''index'' e) # rest)))
             | Inr entry' \<Rightarrow>
                 Inr (store_item fr1 (JStr ''tool_calls'')
                        (JList (tcs[nat (int (length tcs) + i) := entry'])),
                      dict_set (dict_pop ''role'' delta) ''tool_calls''
                        (JList (JObj (dict_pop ''index'' e) # rest)))))"
proof -
  from tc have tc1: "dict_get (dict_pop ''role'' delta) ''tool_calls'' = Some (JList (JObj e # rest))"
    by (simp add: dict_get_dict_pop)
  from tool_calls_untouched[OF dist tc p1] acc
  have calls: "getitem fr1 (JStr ''tool_calls'') = Inr (JList tcs)" by simp
  note step = merge_chunk_tool_call[OF p1 tc1 ix]
  have out: "int (length tcs) \<le> i \<or> i < - int (length tcs) \<longrightarrow>
          merge_chunk fr delta =
            Inl (IndexError, fr1,
                 dict_set (dict_pop ''role'' delta) ''tool_calls''
                   (JList (JObj (dict_pop ''index'' e) # rest)))"
    by (auto simp: step calls list_index_def)
  have neg: "- int (length tcs) \<le> i \<and> i < 0 \<longrightarrow>
          merge_chunk fr delta =
            (case merge_fields (tcs ! nat (int (length tcs) + i)) (dict_pop ''index'' e) of
               Inl (err, entry') \<Rightarrow>
                 Inl (err,
                      store_item fr1 (JStr ''tool_calls'')
                        (JList (tcs[nat (int (length tcs) + i) := entry'])),
                      dict_set (dict_pop ''role'' delta) ''tool_calls''
                        (JList (JObj (dict_pop ''index'' e) # rest)))
             | Inr entry' \<Rightarrow>
                 Inr (store_item fr1 (JStr ''tool_calls'')
                        (JList (tcs[nat (int (length tcs) + i) := entry'])),
                      dict_set (dict_pop ''role'' delta) ''tool_calls''
                        (JList (JObj (dict_pop ''index'' e) # rest))))"
    by (auto simp: step calls list_index_def cong: sum.case_cong)
  from calls out neg show ?thesis by blast
qed

theorem index_out_of_range_raises_witness:
  "distinct (map fst [(''tool_calls'', JList [JObj [(''index'', JInt 2), (''id'', JStr ''b'')]])])
   \<and> dict_get [(''tool_calls'', JList [JObj [(''index'', JInt 2), (''id'', JStr ''b'')]])]
         ''tool_calls'' = Some (JList [JObj [(''index'', JInt 2), (''id'', JStr ''b'')]])
   \<and> dict_get [(''index'', JInt 2), (''id'', JStr ''b'')] ''index'' = Some (JInt 2)
   \<and> dict_get [(''tool_calls'', JList [JObj [(''id'', JStr ''a'')]])] ''tool_calls''
       = Some (JList [JObj [(''id'', JStr ''a'')]])
   \<and> merge_fields (JObj [(''tool_calls'', JList [JObj [(''id'', JStr ''a'')]])])
         (dict_pop ''role'' [(''tool_calls'', JList [JObj [(''index'', JInt 2), (''id'', JStr ''b'')]])])
       = Inr (JObj [(''tool_calls'', JList [JObj [(''id'', JStr ''a'')]])])
   \<and> merge_chunk [(''tool_calls'', JList [JObj [(''id'', JStr ''a'')]])]
         [(''tool_calls'', JList [JObj [(''index'', JInt 2), (''id'', JStr ''b'')]])]
       = Inl (IndexError, JObj [(''tool_calls'', JList [JObj [(''id'', JStr ''a'')]])],
              [(''tool_calls'', JList [JObj [(''id'', JStr ''b'')]])])
   \<and> dict_get [(''index'', JInt (- 1)), (''id'', JStr ''b'')] ''index'' = Some (JInt (- 1))
   \<and> merge_chunk [(''tool_calls'', JList [JObj [(''id'', JStr ''a'')]])]
         [(''tool_calls'', JList [JObj [(''index'', JInt (- 1)), (''id'', JStr ''b'')]])]
       = Inr (JObj [(''tool_calls'', JList [JObj [(''id'', JStr ''ab'')]])],
              [(''tool_calls'', JList [JObj [(''id'', JStr ''b'')]])])"
  (is "?h1 \<and> ?h2 \<and> ?h3 \<and> ?h4 \<and> ?h5 \<and> ?out \<and> ?h3n \<and> ?neg")
proof -
  have h1: ?h1 by simp
  have h2: ?h2 by (simp add: dict_get_def)
  have h3: ?h3 by (simp add: dict_get_def)
  have h4: ?h4 by (simp add: dict_get_def)
  have h5: ?h5 by (simp add: dict_pop_def)
  have h1n: "distinct (map fst [(''tool_calls'',
                JList [JObj [(''index'', JInt (- 1)), (''id'', JStr ''b'')]])])"
    by simp
  have h2n: "dict_get [(''tool_calls'', JList [JObj [(''index'', JInt (- 1)), (''id'', JStr ''b'')]])]
         ''tool_calls'' = Some (JList [JObj [(''index'', JInt (- 1)), (''id'', JStr ''b'')]])"
    by (simp add: dict_get_def)
  have h3n: ?h3n by (simp add: dict_get_def)
  have h5n: "merge_fields (JObj [(''tool_calls'', JList [JObj [(''id'', JStr ''a'')]])])
         (dict_pop ''role''
            [(''tool_calls'', JList [JObj [(''index'', JInt (- 1)), (''id'', JStr ''b'')]])])
       = Inr (JObj [(''tool_calls'', JList [JObj [(''id'', JStr ''a'')]])])"
    by (simp add: dict_pop_def)
  from conjunct1 [OF conjunct2 [OF index_out_of_range_raises [OF h1 h2 h3 h4 h5]]]
  have out: ?out by (simp add: dict_pop_def)
  from conjunct2 [OF conjunct2 [OF index_out_of_range_raises [OF h1n h2n h3n h4 h5n]]]
  have neg: ?neg by (simp add: dict_pop_def dict_get_def)
  show ?thesis by (intro conjI h1 h2 h3 h4 h5 out h3n neg)
qed

text \<open>
  Against C2 as stated: a tool call with index 0 merged into an accumulator whose
  \<open>tool_calls\<close> is the empty list raises IndexError, and the list stays empty.
\<close>

theorem index_out_of_range_counterexample:
  "merge_chunk [(''tool_calls'', JList [])] [(''tool_calls'', JList [JObj [(''index'', JInt 0)]])]
     = Inl (IndexError, JObj [(''tool_calls'', JList [])], [(''tool_calls'', JList [JObj []])])
   \<and> merge_chunk [(''tool_calls'', JList [])] [(''tool_calls'', JList [JObj [(''index'', JInt 0)]])]
     \<noteq> Inr (JObj [(''tool_calls'', JList [JObj []])], [(''tool_calls'', JList [JObj []])])"
  by (simp add: merge_chunk_def dict_pop_def dict_get_def list_index_def)

subsection \<open>The first tool call of a delta\<close>

text \<open>
  C3. Take a delta (a dictionary: its keys are distinct) whose \<open>tool_calls\<close> is a
  non-empty list, an accumulator whose \<open>tool_calls\<close> is a list, and a call of
  \<open>merge_chunk\<close> that returns. Then the first entry of the delta's list is an object with
  an \<open>index\<close>, which addresses a position \<open>p\<close> of the accumulator's list; the entry's
  fields other than \<open>index\<close> have been merged, by \<open>merge_fields\<close>, into the accumulator's
  entry at \<open>p\<close>; the accumulator's list is the old one with that entry replaced, every
  other position as it was; and the delta's first entry has lost its \<open>index\<close>. The
  result does not depend on the later entries of the delta's list, which are not read.
  With the specification's example: merging a tool call of index 1 and arguments "go"
  into tool calls of arguments "a" and "ar" gives "a" and "argo".
\<close>

theorem first_tool_call_merged_at_index:
  assumes dist: "distinct (map fst delta)"
    and tc: "dict_get delta ''tool_calls'' = Some (JList (first # rest))"
    and acc: "dict_get fr ''tool_calls'' = Some (JList tcs)"
    and ret: "merge_chunk fr delta = Inr (fr', delta')"
  shows "\<exists>e idx i p entry' fr1.
           first = JObj e \<and> dict_get e ''index'' = Some idx
         \<and> as_index idx = Some i \<and> list_index (length tcs) i = Some p \<and> p < length tcs
         \<and> merge_fields (tcs ! p) (dict_pop ''index'' e) = Inr entry'
         \<and> merge_fields (JObj fr) (dict_pop ''role'' delta) = Inr fr1
         \<and> fr' = store_item fr1 (JStr ''tool_calls'') (JList (tcs[p := entry']))
         \<and> getitem fr' (JStr ''tool_calls'') = Inr (JList (tcs[p := entry']))
         \<and> (\<forall>q. q \<noteq> p \<longrightarrow> (tcs[p := entry']) ! q = tcs ! q)
         \<and> delta' = dict_set (dict_pop ''role'' delta) ''tool_calls''
                      (JList (JObj (dict_pop ''index'' e) # rest))"
proof -
  let ?d1 = "dict_pop ''role'' delta"
  from tc have tc1: "dict_get ?d1 ''tool_calls'' = Some (JList (first # rest))"
    by (simp add: dict_get_dict_pop)
  from merge_chunk_returns[OF ret] tc1 obtain fr1 e idx calls entry entry' where
    p1: "merge_fields (JObj fr) ?d1 = Inr fr1" and
    fe: "first = JObj e" and ix: "dict_get e ''index'' = Some idx" and
    d': "delta' = dict_set ?d1 ''tool_calls'' (JList (JObj (dict_pop ''index'' e) # rest))" and
    c: "getitem fr1 (JStr ''tool_calls'') = Inr calls" and
    en: "getitem calls idx = Inr entry" and
    m: "merge_fields entry (dict_pop ''index'' e) = Inr entry'" and
    fr': "fr' = store_item fr1 (JStr ''tool_calls'') (store_item calls idx entry')"
    by auto
  from tool_calls_untouched[OF dist tc p1] acc c have calls: "calls = JList tcs" by simp
  from getitem_list[OF en[unfolded calls]] obtain i p where
    ai: "as_index idx = Some i" and li: "list_index (length tcs) i = Some p" and
    lt: "p < length tcs" and ent: "entry = tcs ! p" and
    st: "store_item (JList tcs) idx entry' = JList (tcs[p := entry'])"
    by blast
  from fr' calls st have fr'2: "fr' = store_item fr1 (JStr ''tool_calls'') (JList (tcs[p := entry']))"
    by simp
  from getitem_store_same[OF c] fr'2
  have g: "getitem fr' (JStr ''tool_calls'') = Inr (JList (tcs[p := entry']))" by simp
  have others: "\<forall>q. q \<noteq> p \<longrightarrow> (tcs[p := entry']) ! q = tcs ! q" by simp
  from fe ix ai li lt m[unfolded ent] p1 fr'2 g others d' show ?thesis by blast
qed

theorem first_tool_call_merged_at_index_witness:
  "distinct (map fst
      [(''tool_calls'', JList [JObj [(''index'', JInt 1),
                                     (''function'', JObj [(''arguments'', JStr ''go'')])],
                               JObj [(''index'', JInt 0),
                                     (''function'', JObj [(''arguments'', JStr ''no'')])]])])
   \<and> merge_chunk
        [(''tool_calls'', JList [JObj [(''function'', JObj [(''arguments'', JStr ''a'')])],
                                 JObj [(''function'', JObj [(''arguments'', JStr ''ar'')])]])]
        [(''tool_calls'', JList [JObj [(''index'', JInt 1),
                                       (''function'', JObj [(''arguments'', JStr ''go'')])],
                                 JObj [(''index'', JInt 0),
                                       (''function'', JObj [(''arguments'', JStr ''no'')])]])]
      = Inr (JObj [(''tool_calls'',
                    JList [JObj [(''function'', JObj [(''arguments'', JStr ''a'')])],
                           JObj [(''function'', JObj [(''arguments'', JStr ''argo'')])]])],
             [(''tool_calls'', JList [JObj [(''function'', JObj [(''arguments'', JStr ''go'')])],
                                      JObj [(''index'', JInt 0),
                                            (''function'', JObj [(''arguments'', JStr ''no'')])]])])
   \<and> (\<exists>e idx i p entry'.
         JObj [(''index'', JInt 1), (''function'', JObj [(''arguments'', JStr ''go'')])] = JObj e
       \<and> dict_get e ''index'' = Some idx \<and> as_index idx = Some i
       \<and> list_index (length [JObj [(''function'', JObj [(''arguments'', JStr ''a'')])],
                              JObj [(''function'', JObj [(''arguments'', JStr ''ar'')])]]) i = Some p
       \<and> merge_fields
            ([JObj [(''function'', JObj [(''arguments'', JStr ''a'')])],
              JObj [(''function'', JObj [(''arguments'', JStr ''ar'')])]] ! p)
            (dict_pop ''index'' e) = Inr entry'
       \<and> getitem
            (JObj [(''tool_calls'',
                    JList [JObj [(''function'', JObj [(''arguments'', JStr ''a'')])],
                           JObj [(''function'', JObj [(''arguments'', JStr ''argo'')])]])])
            (JStr ''tool_calls'')
          = Inr (JList ([JObj [(''function'', JObj [(''arguments'', JStr ''a'')])],
                         JObj [(''function'', JObj [(''arguments'', JStr ''ar'')])]][p := entry'])))"
  (is "?h1 \<and> ?ret \<and> ?concl")
proof -
  have h1: ?h1 by simp
  have h2: "dict_get
      [(''tool_calls'', JList [JObj [(''index'', JInt 1),
                                     (''function'', JObj [(''arguments'', JStr ''go'')])],
                               JObj [(''index'', JInt 0),
                                     (''function'', JObj [(''arguments'', JStr ''no'')])]])]
      ''tool_calls''
     = Some (JList (JObj [(''index'', JInt 1), (''function'', JObj [(''arguments'', JStr ''go'')])]
                    # [JObj [(''index'', JInt 0),
                            (''function'', JObj [(''arguments'', JStr ''no'')])]]))"
    by (simp add: dict_get_def)
  have h3: "dict_get
        [(''tool_calls'', JList [JObj [(''function'', JObj [(''arguments'', JStr ''a'')])],
                                 JObj [(''function'', JObj [(''arguments'', JStr ''ar'')])]])]
        ''tool_calls''
      = Some (JList [JObj [(''function'', JObj [(''arguments'', JStr ''a'')])],
                     JObj [(''function'', JObj [(''arguments'', JStr ''ar'')])]])"
    by (simp add: dict_get_def)
  have h4: ?ret
    by (simp add: merge_chunk_def dict_pop_def dict_get_def list_index_def)
  from first_tool_call_merged_at_index [OF h1 h2 h3 h4] have ?concl by blast
  with h1 h4 show ?thesis by (intro conjI)
qed

subsection \<open>A merge that raises\<close>

text \<open>
  C6, as the code has it. The merge is in place and has no rollback, and what a call that
  raises leaves is determined.

  When \<open>merge_fields target src\<close> raises \<open>e\<close> and leaves \<open>t'\<close>: \<open>e\<close> is KeyError or
  TypeError, and there is a failing field, the field \<open>n\<close> of the source, such that the
  merge of the \<open>n\<close> fields before it returns (call what it leaves \<open>t1\<close>) and the merge of
  the first \<open>n + 1\<close> fields raises \<open>e\<close> and leaves \<open>t'\<close>. So the target holds the complete
  merge of the fields before the failing one, and no later field has been looked at. The
  failing field is a string or an object. When it is a string it has not been applied,
  \<open>t' = t1\<close> (no string is half appended): the read of its key raised, or the \<^verbatim>\<open>+=\<close> did.
  When it is an object, either the read of its key raised and \<open>t' = t1\<close>, or the recursive
  merge into the sub-document raised and \<open>t'\<close> is \<open>t1\<close> with that sub-document as the
  recursive call left it.

  When \<open>merge_chunk fr delta\<close> raises \<open>e\<close> and leaves the accumulator \<open>fr'\<close> and the
  delta \<open>delta'\<close>: \<open>e\<close> is KeyError, IndexError, TypeError or AttributeError (the code has no
  MergeError), and one of these holds.
  \<^item> The first step, the merge of the delta without \<open>role\<close>, raised \<open>e\<close> and left
    \<open>fr'\<close>.
  \<^item> The first step returned, leaving \<open>fr1\<close>, and the accumulator is as that step left it,
    \<open>fr' = fr1\<close>: taking the length of the delta's \<open>tool_calls\<close>, or its first entry,
    or the \<open>index\<close> of that entry raised; or, the \<open>index\<close> removed, reading the
    accumulator's \<open>tool_calls\<close> or its entry at the index raised.
  \<^item> The first step returned, leaving \<open>fr1\<close>, and the merge of the first tool call,
    without its \<open>index\<close>, into the accumulator's entry raised: \<open>fr'\<close> is \<open>fr1\<close> with that
    entry as the merge left it.
\<close>

theorem merge_raises_without_rollback:
  "(merge_fields target src = Inl (e, t') \<longrightarrow>
      (e = KeyError \<or> e = TypeError)
      \<and> (\<exists>n t1 k v. n < length src \<and> src ! n = (k, v)
            \<and> merge_fields target (take n src) = Inr t1
            \<and> merge_fields target (take (Suc n) src) = Inl (e, t')
            \<and> ((\<exists>s. v = JStr s \<and> t' = t1
                    \<and> (getitem t1 (JStr k) = Inl e
                       \<or> (\<exists>old. getitem t1 (JStr k) = Inr old \<and> iadd old s = Inl e)))
               \<or> (\<exists>sub_src. v = JObj sub_src
                     \<and> (getitem t1 (JStr k) = Inl e \<and> t' = t1
                        \<or> (\<exists>sub sub'. getitem t1 (JStr k) = Inr sub
                              \<and> merge_fields sub sub_src = Inl (e, sub')
                              \<and> t' = store_item t1 (JStr k) sub'))))))
   \<and> (merge_chunk fr delta = Inl (e, fr', delta') \<longrightarrow>
      (e = KeyError \<or> e = IndexError \<or> e = TypeError \<or> e = AttributeError)
      \<and> ((merge_fields (JObj fr) (dict_pop ''role'' delta) = Inl (e, fr')
           \<and> delta' = dict_pop ''role'' delta)
         \<or> (\<exists>fr1. merge_fields (JObj fr) (dict_pop ''role'' delta) = Inr fr1
               \<and> ((fr' = fr1 \<and> delta' = dict_pop ''role'' delta
                    \<and> (\<exists>tc. dict_get (dict_pop ''role'' delta) ''tool_calls'' = Some tc \<and> truthy tc
                          \<and> (py_len tc = Inl e \<or> getitem tc (JInt 0) = Inl e
                             \<or> (\<exists>first. getitem tc (JInt 0) = Inr first
                                   \<and> pop_index first = Inl e))))
                  \<or> (\<exists>en rest idx.
                        dict_get (dict_pop ''role'' delta) ''tool_calls''
                          = Some (JList (JObj en # rest))
                      \<and> dict_get en ''index'' = Some idx
                      \<and> delta' = dict_set (dict_pop ''role'' delta) ''tool_calls''
                                   (JList (JObj (dict_pop ''index'' en) # rest))
                      \<and> ((fr' = fr1 \<and> getitem fr1 (JStr ''tool_calls'') = Inl e)
                         \<or> (\<exists>calls. getitem fr1 (JStr ''tool_calls'') = Inr calls
                               \<and> ((fr' = fr1 \<and> getitem calls idx = Inl e)
                                  \<or> (\<exists>entry entry'. getitem calls idx = Inr entry
                                        \<and> merge_fields entry (dict_pop ''index'' en)
                                            = Inl (e, entry')
                                        \<and> fr' = store_item fr1 (JStr ''tool_calls'')
                                                   (store_item calls idx entry'))))))))))"
  (is "(?h1 \<longrightarrow> ?e1 \<and> ?c1) \<and> (?h2 \<longrightarrow> ?e2 \<and> ?c2)")
proof -
  have a: "?h1 \<longrightarrow> ?e1 \<and> ?c1"
  proof (intro impI conjI)
    assume r: ?h1
    from merge_fields_errors[OF r] show ?e1 .
    from merge_fields_failing_field[OF r] obtain n t1 where
      n: "n < length src" and t1: "merge_fields target (take n src) = Inr t1" and
      f: "merge_fields t1 [src ! n] = Inl (e, t')"
      by blast
    obtain k v where kv: "src ! n = (k, v)" by (cases "src ! n")
    from n have "take (Suc n) src = take n src @ [src ! n]" by (rule take_Suc_conv_app_nth)
    with merge_fields_append[of target "take n src" "[src ! n]"] t1 f
    have s: "merge_fields target (take (Suc n) src) = Inl (e, t')" by simp
    from f kv have "merge_fields t1 [(k, v)] = Inl (e, t')" by simp
    from merge_fields_single_raises[OF this] n kv t1 s
    show ?c1 by blast
  qed
  have b: "?h2 \<longrightarrow> ?e2 \<and> ?c2"
  proof (intro impI conjI)
    assume r: ?h2
    from merge_chunk_errors[OF r] show ?e2 .
    from merge_chunk_raises[OF r] show ?c2 .
  qed
  show ?thesis by (intro conjI a b)
qed

text \<open>
  Two calls that raise. Merging \<open>{content: "i", function: {name: "f", args: "{"}}\<close>
  into \<open>{content: "H", function: {name: "", arguments: ""}}\<close> raises KeyError in the
  second field, with \<open>content\<close> and \<open>name\<close> merged; merging a first tool call with an
  unknown key \<open>type\<close> raises KeyError, with \<open>id\<close> merged, \<open>role\<close> and \<open>index\<close> removed.
\<close>

theorem merge_raises_without_rollback_witness:
  "merge_fields (JObj [(''content'', JStr ''H''), (''function'', JObj [(''name'', JStr []), (''arguments'', JStr [])])])
      [(''content'', JStr ''i''), (''function'', JObj [(''name'', JStr ''f''), (''args'', JStr ''{'')])]
     = Inl (KeyError, (JObj [(''content'', JStr ''Hi''), (''function'', JObj [(''name'', JStr ''f''), (''arguments'', JStr [])])]))
   \<and> ((KeyError = KeyError \<or> KeyError = TypeError)
      \<and> (\<exists>n t1 k v. n < length [(''content'', JStr ''i''), (''function'', JObj [(''name'', JStr ''f''), (''args'', JStr ''{'')])] \<and> [(''content'', JStr ''i''), (''function'', JObj [(''name'', JStr ''f''), (''args'', JStr ''{'')])] ! n = (k, v)
            \<and> merge_fields (JObj [(''content'', JStr ''H''), (''function'', JObj [(''name'', JStr []), (''arguments'', JStr [])])]) (take n [(''content'', JStr ''i''), (''function'', JObj [(''name'', JStr ''f''), (''args'', JStr ''{'')])]) = Inr t1
            \<and> merge_fields (JObj [(''content'', JStr ''H''), (''function'', JObj [(''name'', JStr []), (''arguments'', JStr [])])]) (take (Suc n) [(''content'', JStr ''i''), (''function'', JObj [(''name'', JStr ''f''), (''args'', JStr ''{'')])]) = Inl (KeyError, (JObj [(''content'', JStr ''Hi''), (''function'', JObj [(''name'', JStr ''f''), (''arguments'', JStr [])])]))
            \<and> ((\<exists>s. v = JStr s \<and> (JObj [(''content'', JStr ''Hi''), (''function'', JObj [(''name'', JStr ''f''), (''arguments'', JStr [])])]) = t1
                    \<and> (getitem t1 (JStr k) = Inl KeyError
                       \<or> (\<exists>old. getitem t1 (JStr k) = Inr old \<and> iadd old s = Inl KeyError)))
               \<or> (\<exists>sub_src. v = JObj sub_src
                     \<and> (getitem t1 (JStr k) = Inl KeyError \<and> (JObj [(''content'', JStr ''Hi''), (''function'', JObj [(''name'', JStr ''f''), (''arguments'', JStr [])])]) = t1
                        \<or> (\<exists>sub sub'. getitem t1 (JStr k) = Inr sub
                              \<and> merge_fields sub sub_src = Inl (KeyError, sub')
                              \<and> (JObj [(''content'', JStr ''Hi''), (''function'', JObj [(''name'', JStr ''f''), (''arguments'', JStr [])])]) = store_item t1 (JStr k) sub'))))))
   \<and> merge_chunk [(''tool_calls'', JList [JObj [(''id'', JStr [])]])]
        [(''role'', JStr ''assistant''), (''tool_calls'', JList [JObj [(''index'', JInt 0), (''id'', JStr ''c''), (''type'', JStr ''function'')]])]
     = Inl (KeyError, (JObj [(''tool_calls'', JList [JObj [(''id'', JStr ''c'')]])]),
            [(''tool_calls'', JList [JObj [(''id'', JStr ''c''), (''type'', JStr ''function'')]])])
   \<and> ((KeyError = KeyError \<or> KeyError = IndexError \<or> KeyError = TypeError \<or> KeyError = AttributeError)
      \<and> ((merge_fields (JObj [(''tool_calls'', JList [JObj [(''id'', JStr [])]])]) (dict_pop ''role'' [(''role'', JStr ''assistant''), (''tool_calls'', JList [JObj [(''index'', JInt 0), (''id'', JStr ''c''), (''type'', JStr ''function'')]])]) = Inl (KeyError, (JObj [(''tool_calls'', JList [JObj [(''id'', JStr ''c'')]])]))
           \<and> [(''tool_calls'', JList [JObj [(''id'', JStr ''c''), (''type'', JStr ''function'')]])] = dict_pop ''role'' [(''role'', JStr ''assistant''), (''tool_calls'', JList [JObj [(''index'', JInt 0), (''id'', JStr ''c''), (''type'', JStr ''function'')]])])
         \<or> (\<exists>fr1. merge_fields (JObj [(''tool_calls'', JList [JObj [(''id'', JStr [])]])]) (dict_pop ''role'' [(''role'', JStr ''assistant''), (''tool_calls'', JList [JObj [(''index'', JInt 0), (''id'', JStr ''c''), (''type'', JStr ''function'')]])]) = Inr fr1
               \<and> (((JObj [(''tool_calls'', JList [JObj [(''id'', JStr ''c'')]])]) = fr1 \<and> [(''tool_calls'', JList [JObj [(''id'', JStr ''c''), (''type'', JStr ''function'')]])] = dict_pop ''role'' [(''role'', JStr ''assistant''), (''tool_calls'', JList [JObj [(''index'', JInt 0), (''id'', JStr ''c''), (''type'', JStr ''function'')]])]
                    \<and> (\<exists>tc. dict_get (dict_pop ''role'' [(''role'', JStr ''assistant''), (''tool_calls'', JList [JObj [(''index'', JInt 0), (''id'', JStr ''c''), (''type'', JStr ''function'')]])]) ''tool_calls'' = Some tc \<and> truthy tc
                          \<and> (py_len tc = Inl KeyError \<or> getitem tc (JInt 0) = Inl KeyError
                             \<or> (\<exists>first. getitem tc (JInt 0) = Inr first
                                   \<and> pop_index first = Inl KeyError))))
                  \<or> (\<exists>en rest idx.
                        dict_get (dict_pop ''role'' [(''role'', JStr ''assistant''), (''tool_calls'', JList [JObj [(''index'', JInt 0), (''id'', JStr ''c''), (''type'', JStr ''function'')]])]) ''tool_calls''
                          = Some (JList (JObj en # rest))
                      \<and> dict_get en ''index'' = Some idx
                      \<and> [(''tool_calls'', JList [JObj [(''id'', JStr ''c''), (''type'', JStr ''function'')]])] = dict_set (dict_pop ''role'' [(''role'', JStr ''assistant''), (''tool_calls'', JList [JObj [(''index'', JInt 0), (''id'', JStr ''c''), (''type'', JStr ''function'')]])]) ''tool_calls''
                                   (JList (JObj (dict_pop ''index'' en) # rest))
                      \<and> (((JObj [(''tool_calls'', JList [JObj [(''id'', JStr ''c'')]])]) = fr1 \<and> getitem fr1 (JStr ''tool_calls'') = Inl KeyError)
                         \<or> (\<exists>calls. getitem fr1 (JStr ''tool_calls'') = Inr calls
                               \<and> (((JObj [(''tool_calls'', JList [JObj [(''id'', JStr ''c'')]])]) = fr1 \<and> getitem calls idx = Inl KeyError)
                                  \<or> (\<exists>entry entry'. getitem calls idx = Inr entry
                                        \<and> merge_fields entry (dict_pop ''index'' en)
                                            = Inl (KeyError, entry')
                                        \<and> (JObj [(''tool_calls'', JList [JObj [(''id'', JStr ''c'')]])]) = store_item fr1 (JStr ''tool_calls'')
                                                   (store_item calls idx entry'))))))))))"
  (is "?h1 \<and> ?c1 \<and> ?h2 \<and> ?c2")
proof -
  have h1: ?h1 by (simp add: dict_get_def)
  have h2: ?h2 by (simp add: merge_chunk_def dict_pop_def dict_get_def list_index_def)
  from conjunct1 [OF merge_raises_without_rollback] h1 have c1: ?c1 by (rule mp)
  from conjunct2 [OF merge_raises_without_rollback] h2 have c2: ?c2 by (rule mp)
  show ?thesis by (intro conjI h1 c1 h2 c2)
qed

text \<open>
  Against C6 as stated: merging \<open>{content: "i", missing: "x"}\<close> into \<open>{content: "H"}\<close>
  raises KeyError at \<open>missing\<close> and leaves \<open>{content: "Hi"}\<close>: one of the delta's two
  fields has been applied.
\<close>

theorem partial_update_counterexample:
  "merge_chunk [(''content'', JStr ''H'')] [(''content'', JStr ''i''), (''missing'', JStr ''x'')]
     = Inl (KeyError, JObj [(''content'', JStr ''Hi'')],
            [(''content'', JStr ''i''), (''missing'', JStr ''x'')])
   \<and> merge_chunk [(''content'', JStr ''H'')] [(''content'', JStr ''i''), (''missing'', JStr ''x'')]
     \<noteq> Inl (KeyError, JObj [(''content'', JStr ''H'')],
             [(''content'', JStr ''i''), (''missing'', JStr ''x'')])"
  by (simp add: merge_chunk_def dict_pop_def dict_get_def)

end
